theory Spec2Isabelle
  imports Complex_Main "HOL-Library.Multiset"
begin

section \<open>JavaScript values and strings\<close>

text \<open>
  The two pages of the stock analysis front end, \<^verbatim>\<open>static/js/single.js\<close> and
  \<^verbatim>\<open>static/js/batch.js\<close>, are modelled as state machines: the variables of the
  page script and the parts of the document it writes are the fields of a record, every
  event handler is a function from state to state, and every \<^verbatim>\<open>await\<close> splits a handler
  into the part that runs at once and the continuation that runs when the reply arrives.

  Strings are byte strings: the ASCII text the handlers test (status names, file names,
  stock codes) is written as it is in the source, and the Korean display labels are their
  UTF-8 bytes in the source file.
\<close>

text \<open>
  A value read from an object: \<^verbatim>\<open>undefined\<close>, a string, or one of the members every
  object literal inherits from \<^verbatim>\<open>Object.prototype\<close> (functions, and the prototype
  itself under \<^verbatim>\<open>__proto__\<close>), kept by name.
\<close>

datatype jsval = Undefined | Str string | Inherited string

fun truthy :: "jsval \<Rightarrow> bool" where
  "truthy Undefined = False"
| "truthy (Str s) = (s \<noteq> [])"
| "truthy (Inherited k) = True"

text \<open>An optional string field of a JSON object is truthy when present and not empty.\<close>

fun truthy_field :: "string option \<Rightarrow> bool" where
  "truthy_field None = False"
| "truthy_field (Some s) = (s \<noteq> [])"

text \<open>
  A value of a JSON body on which a handler calls a method, so that its type decides
  whether the call throws: \<open>JObject\<close> stands for an object or an array.
\<close>

datatype json = JNull | JBool bool | JNumber real | JString string | JObject

fun json_truthy :: "json \<Rightarrow> bool" where
  "json_truthy JNull = False"
| "json_truthy (JBool b) = b"
| "json_truthy (JNumber x) = (x \<noteq> 0)"
| "json_truthy (JString s) = (s \<noteq> [])"
| "json_truthy JObject = True"

text \<open>\<^verbatim>\<open>field || 0\<close>, for a field that may be missing.\<close>

definition or_zero :: "json option \<Rightarrow> json" where
  "or_zero v =
     (case v of None \<Rightarrow> JNumber 0 | Some x \<Rightarrow> if json_truthy x then x else JNumber 0)"

text \<open>
  \<^verbatim>\<open>value.toFixed(1)\<close>: the number that is formatted, or \<open>None\<close> for the TypeError
  a value other than a number raises (it has no such method).
\<close>

fun toFixed :: "json \<Rightarrow> real option" where
  "toFixed (JNumber x) = Some x"
| "toFixed _ = None"

text \<open>
  \<^verbatim>\<open>field || fallback\<close> followed by \<^verbatim>\<open>formatText\<close>, whose \<^verbatim>\<open>text.replace\<close> is a method
  of strings only: the text that is formatted (\<open>None\<close> for the fallback), or \<open>Inl ()\<close>
  for the TypeError a truthy value other than a string raises.
\<close>

definition formatText_field :: "json option \<Rightarrow> unit + string option" where
  "formatText_field v =
     (case v of
        None \<Rightarrow> Inr None
      | Some x \<Rightarrow>
          if \<not> json_truthy x then Inr None
          else (case x of JString s \<Rightarrow> Inr (Some s) | _ \<Rightarrow> Inl ()))"

definition Object_prototype_keys :: "string list" where
  "Object_prototype_keys =
     [''constructor'', ''__defineGetter__'', ''__defineSetter__'', ''hasOwnProperty'',
      ''__lookupGetter__'', ''__lookupSetter__'', ''isPrototypeOf'',
      ''propertyIsEnumerable'', ''toString'', ''valueOf'', ''__proto__'',
      ''toLocaleString'']"

text \<open>
  \<^verbatim>\<open>obj[key]\<close> on an object literal with the own properties \<open>own\<close>: the own property
  when there is one, else the member inherited from \<^verbatim>\<open>Object.prototype\<close>, else
  \<^verbatim>\<open>undefined\<close>.
\<close>

definition object_get :: "(string \<times> string) list \<Rightarrow> string \<Rightarrow> jsval" where
  "object_get own key =
     (case map_of own key of
        Some v \<Rightarrow> Str v
      | None \<Rightarrow> if key \<in> set Object_prototype_keys then Inherited key else Undefined)"

definition digit :: "char \<Rightarrow> bool" where
  "digit c = (c \<in> set ''0123456789'')"

text \<open>
  The characters \<^verbatim>\<open>String.prototype.trim\<close> removes (the white space and the line
  terminators of the language), each as its UTF-8 bytes: U+0009 to U+000D, U+0020, U+00A0,
  U+1680, U+2000 to U+200A, U+2028, U+2029, U+202F, U+205F, U+3000 and U+FEFF.
\<close>

definition white_space :: "string list" where
  "white_space =
     [[CHR 0x09], [CHR 0x0A], [CHR 0x0B], [CHR 0x0C], [CHR 0x0D], [CHR 0x20],
      [CHR 0xC2, CHR 0xA0], [CHR 0xE1, CHR 0x9A, CHR 0x80],
      [CHR 0xE2, CHR 0x80, CHR 0x80], [CHR 0xE2, CHR 0x80, CHR 0x81],
      [CHR 0xE2, CHR 0x80, CHR 0x82], [CHR 0xE2, CHR 0x80, CHR 0x83],
      [CHR 0xE2, CHR 0x80, CHR 0x84], [CHR 0xE2, CHR 0x80, CHR 0x85],
      [CHR 0xE2, CHR 0x80, CHR 0x86], [CHR 0xE2, CHR 0x80, CHR 0x87],
      [CHR 0xE2, CHR 0x80, CHR 0x88], [CHR 0xE2, CHR 0x80, CHR 0x89],
      [CHR 0xE2, CHR 0x80, CHR 0x8A], [CHR 0xE2, CHR 0x80, CHR 0xA8],
      [CHR 0xE2, CHR 0x80, CHR 0xA9], [CHR 0xE2, CHR 0x80, CHR 0xAF],
      [CHR 0xE2, CHR 0x81, CHR 0x9F], [CHR 0xE3, CHR 0x80, CHR 0x80],
      [CHR 0xEF, CHR 0xBB, CHR 0xBF]]"

definition starts_with :: "string \<Rightarrow> string \<Rightarrow> bool" where
  "starts_with s w = (take (length w) s = w)"

text \<open>The string without the characters of \<open>ws\<close> it starts with.\<close>

function strip_leading :: "string list \<Rightarrow> string \<Rightarrow> string" where
  "strip_leading ws s =
     (case find (\<lambda>w. w \<noteq> [] \<and> starts_with s w) ws of
        None \<Rightarrow> s
      | Some w \<Rightarrow> strip_leading ws (drop (length w) s))"
  by pat_completeness auto
termination
proof (relation "measure (\<lambda>(ws, s). length s)")
  show "wf (measure (\<lambda>(ws, s). length s))" by simp
next
  fix ws :: "string list" and s w :: string
  assume "find (\<lambda>w. w \<noteq> [] \<and> starts_with s w) ws = Some w"
  then have "w \<noteq> [] \<and> take (length w) s = w"
    by (auto simp: find_Some_iff starts_with_def)
  then have "s \<noteq> [] \<and> 0 < length w" by auto
  then show "((ws, drop (length w) s), (ws, s)) \<in> measure (\<lambda>(ws, s). length s)"
    by simp
qed

declare strip_leading.simps [simp del]

text \<open>Trailing white space is leading white space of the reversed string.\<close>

definition trim :: "string \<Rightarrow> string" where
  "trim s = rev (strip_leading (map rev white_space) (rev (strip_leading white_space s)))"

definition endsWith :: "string \<Rightarrow> string \<Rightarrow> bool" where
  "endsWith s suffix =
     (length suffix \<le> length s \<and> drop (length s - length suffix) s = suffix)"

section \<open>getStatusText (batch.js)\<close>

definition label_running :: string where
  "label_running = [CHR 0xEB, CHR 0xB6, CHR 0x84, CHR 0xEC, CHR 0x84, CHR 0x9D, CHR 0x20,
                    CHR 0xEC, CHR 0xA4, CHR 0x91]"

definition label_completed :: string where
  "label_completed = [CHR 0xEC, CHR 0x99, CHR 0x84, CHR 0xEB, CHR 0xA3, CHR 0x8C]"

definition label_failed :: string where
  "label_failed = [CHR 0xEC, CHR 0x8B, CHR 0xA4, CHR 0xED, CHR 0x8C, CHR 0xA8]"

definition label_waiting :: string where
  "label_waiting = [CHR 0xEB, CHR 0x8C, CHR 0x80, CHR 0xEA, CHR 0xB8, CHR 0xB0, CHR 0x20,
                    CHR 0xEC, CHR 0xA4, CHR 0x91]"

definition statusMap :: "(string \<times> string) list" where
  "statusMap =
     [(''running'', label_running), (''completed'', label_completed),
      (''failed'', label_failed), (''waiting'', label_waiting)]"

text \<open>\<^verbatim>\<open>return statusMap[status] || status;\<close>\<close>

definition getStatusText :: "string \<Rightarrow> jsval" where
  "getStatusText status =
     (let v = object_get statusMap status in if truthy v then v else Str status)"

section \<open>The single analysis page (single.js)\<close>

text \<open>
  The messages the two pages show in their error box, one constructor for each message of
  the source, with the text it interpolates as argument: \<open>SixDigitsRequired\<close>
  (single.js, line 31); \<open>ServerError\<close>, the \<^verbatim>\<open>error\<close> field of a reply, rethrown;
  \<open>AnalysisDefaultError\<close> (single.js, line 60) and \<open>BatchStartDefaultError\<close>
  (batch.js, line 78), shown for a reply that is not ok and has no error text;
  \<open>ExceptionMessage\<close>, the message of the exception a failed fetch or an unparsable
  body raises; \<open>FileTooLarge\<close> and \<open>NotTextFile\<close> (batch.js, lines 20 and 27);
  \<open>StatusCheckError\<close> (line 125); \<open>AnalysisFailed\<close> and
  \<open>AnalysisFailedUnknown\<close> (line 138); \<open>ResultsError\<close> (line 172) and
  \<open>ResultsLoadFailed\<close> (line 189).
\<close>

datatype message =
    SixDigitsRequired
  | ServerError string
  | AnalysisDefaultError
  | ExceptionMessage
  | FileTooLarge
  | NotTextFile
  | BatchStartDefaultError
  | StatusCheckError string
  | AnalysisFailed string
  | AnalysisFailedUnknown
  | ResultsError string
  | ResultsLoadFailed

text \<open>A file of the file input: what the change handler reads of it.\<close>

record upload =
  f_name :: string
  f_size :: nat
  f_type :: string

text \<open>
  The requests the pages send: the single analysis with stock code and chart type, the
  batch form with the file of its input, the status of a job, and the results of the job
  \<open>batchId\<close> names when they are asked for.
\<close>

datatype request =
    SingleAnalyze string string
  | BatchAnalyze "upload option"
  | StatusReq string
  | ResultsReq "string option"

text \<open>The test \<^verbatim>\<open>/^\d{0,6}$/\<close> of the input handler.\<close>

definition at_most_six_digits :: "string \<Rightarrow> bool" where
  "at_most_six_digits v = (length v \<le> 6 \<and> list_all digit v)"

text \<open>
  The \<^verbatim>\<open>input\<close> handler of the stock code field, as a function of the value the
  field holds when the event fires: the value the field holds afterwards.
  (\<^verbatim>\<open>replace(/\D/g, '')\<close> keeps the digits; the handler's \<^verbatim>\<open>blur()\<close> moves the
  focus only.)
\<close>

definition stockCodeInput_input :: "string \<Rightarrow> string" where
  "stockCodeInput_input v =
     (if v \<noteq> [] \<and> \<not> at_most_six_digits v then filter digit v else v)"

record single_json =
  sj_ok :: bool
  sj_error :: "string option"
  sj_stock_name :: "string option"
  sj_chart_type :: "string option"
  sj_analysis_score :: "int option"
  sj_summary :: "json option"
  sj_detailed_analysis :: "json option"

record single_page =
  stock_code :: string
  chart_type :: string
  resultShown :: "single_json option"
  s_error :: "message option"
  s_loading :: bool
  s_pending :: nat
  s_log :: "request list"

definition single_init :: single_page where
  "single_init = \<lparr>stock_code = [], chart_type = [], resultShown = None, s_error = None,
                  s_loading = False, s_pending = 0, s_log = []\<rparr>"

text \<open>The user edits the field to \<open>v\<close>; the input handler runs on it.\<close>

definition single_input :: "string \<Rightarrow> single_page \<Rightarrow> single_page" where
  "single_input v s = s\<lparr>stock_code := stockCodeInput_input v\<rparr>"

text \<open>The submit handler up to its \<^verbatim>\<open>await fetch\<close>.\<close>

definition single_submit :: "single_page \<Rightarrow> single_page" where
  "single_submit s =
     (let stockCode = trim (stock_code s) in
      if stockCode = [] \<or> length stockCode \<noteq> 6
      then s\<lparr>s_error := Some SixDigitsRequired\<rparr>
      else s\<lparr>resultShown := None, s_error := None, s_loading := True,
             s_pending := s_pending s + 1,
             s_log := s_log s @ [SingleAnalyze stockCode (chart_type s)]\<rparr>)"

text \<open>
  The rest of the submit handler, run when the fetch settles: \<open>None\<close> is a rejected
  fetch, a body that is not JSON, or the body \<^verbatim>\<open>null\<close>. \<^verbatim>\<open>showResult\<close> puts the
  result on the page as its last step, after formatting the summary and the detailed
  analysis; when \<^verbatim>\<open>formatText\<close> throws, the handler's \<^verbatim>\<open>catch\<close> shows the message of
  the exception and the result stays hidden.
\<close>

definition single_reply :: "single_json option \<Rightarrow> single_page \<Rightarrow> single_page" where
  "single_reply r s =
     (if s_pending s = 0 then s
      else
        let s1 = s\<lparr>s_pending := s_pending s - 1\<rparr>;
            s2 = (case r of
                    None \<Rightarrow> s1\<lparr>s_error := Some ExceptionMessage\<rparr>
                  | Some data \<Rightarrow>
                      if \<not> sj_ok data then
                        s1\<lparr>s_error := Some (if truthy_field (sj_error data)
                                              then ServerError (the (sj_error data))
                                              else AnalysisDefaultError)\<rparr>
                      else if truthy_field (sj_error data) then
                        s1\<lparr>s_error := Some (ServerError (the (sj_error data)))\<rparr>
                      else if isl (formatText_field (sj_summary data)) \<or>
                              isl (formatText_field (sj_detailed_analysis data)) then
                        s1\<lparr>s_error := Some ExceptionMessage\<rparr>
                      else s1\<lparr>resultShown := Some data\<rparr>)
        in s2\<lparr>s_loading := False\<rparr>)"

definition single_reset :: "single_page \<Rightarrow> single_page" where
  "single_reset s = s\<lparr>stock_code := [], resultShown := None, s_error := None\<rparr>"

datatype single_event =
    SInput string
  | SSubmit
  | SReply "single_json option"
  | SReset

fun single_step :: "single_page \<Rightarrow> single_event \<Rightarrow> single_page" where
  "single_step s (SInput v) = single_input v s"
| "single_step s SSubmit = single_submit s"
| "single_step s (SReply r) = single_reply r s"
| "single_step s SReset = single_reset s"

definition single_run :: "single_event list \<Rightarrow> single_page \<Rightarrow> single_page" where
  "single_run es s = foldl single_step s es"

definition six_digits :: "string \<Rightarrow> bool" where
  "six_digits v = (length v = 6 \<and> list_all digit v)"

section \<open>The batch analysis page (batch.js)\<close>

text \<open>The JSON bodies of the three endpoints the page reads, field by field.\<close>

record submit_json =
  sb_ok :: bool
  sb_error :: "string option"
  sb_batch_id :: "string option"

record status_json =
  st_error :: "string option"
  st_status :: "string option"
  st_chart_type :: "string option"
  st_progress :: "json option"
  st_completed :: "nat option"
  st_failed :: "nat option"
  st_total :: "nat option"
  st_start_time :: "string option"

record results_json =
  rs_error :: "string option"
  rs_total :: "nat option"
  rs_results :: "(string \<times> string option) list"

text \<open>
  What \<^verbatim>\<open>updateStatusDisplay\<close> writes into the document, before number and date
  formatting, in two parts: the three writes before the call of \<^verbatim>\<open>toFixed\<close> (batch
  id, chart type, width of the progress bar), and the writes from that call on (the
  percentage, the count of completed and total, the start time, the two counters and the
  status text). \<open>d_startTime = None\<close> is the dash \<^verbatim>\<open>formatDateTime\<close> shows for a
  missing time.
\<close>

record shown_head =
  h_batchId :: "string option"
  h_chartType :: string
  h_progressWidth :: json

record shown_rest =
  d_progressPercent :: real
  d_progressCount :: "nat \<times> nat"
  d_startTime :: "string option"
  d_completed :: nat
  d_failed :: nat
  d_statusText :: jsval

text \<open>
  The page: \<open>batchId\<close> and \<open>statusInterval\<close> are the two variables of the script,
  \<open>timers\<close> the intervals that are set and not cleared, \<open>nextTimer\<close> the id the next
  \<^verbatim>\<open>setInterval\<close> returns (ids are positive), the \<open>pending\<close> fields count the
  fetches that have not settled, and \<open>b_log\<close> lists the requests sent, oldest first.
\<close>

record batch_page =
  batchId :: "string option"
  statusInterval :: "nat option"
  timers :: "nat set"
  nextTimer :: nat
  fileInput :: "upload option"
  filePreview :: "upload option"
  batchStatusVisible :: bool
  shownHead :: "shown_head option"
  shownRest :: "shown_rest option"
  b_error :: "message option"
  b_loading :: bool
  actions :: "results_json option"
  pendingSubmit :: nat
  pendingStatus :: nat
  pendingResults :: nat
  b_log :: "request list"

definition batch_init :: batch_page where
  "batch_init =
     \<lparr>batchId = None, statusInterval = None, timers = {}, nextTimer = 1,
      fileInput = None, filePreview = None, batchStatusVisible = False,
      shownHead = None, shownRest = None,
      b_error = None, b_loading = False, actions = None,
      pendingSubmit = 0, pendingStatus = 0, pendingResults = 0, b_log = []\<rparr>"

definition showError :: "message \<Rightarrow> batch_page \<Rightarrow> batch_page" where
  "showError m s = s\<lparr>b_error := Some m\<rparr>"

definition hideError :: "batch_page \<Rightarrow> batch_page" where
  "hideError s = s\<lparr>b_error := None\<rparr>"

definition setLoading :: "bool \<Rightarrow> batch_page \<Rightarrow> batch_page" where
  "setLoading b s = s\<lparr>b_loading := b\<rparr>"

definition clearInterval :: "nat option \<Rightarrow> batch_page \<Rightarrow> batch_page" where
  "clearInterval h s = (case h of None \<Rightarrow> s | Some t \<Rightarrow> s\<lparr>timers := timers s - {t}\<rparr>)"

definition setInterval :: "batch_page \<Rightarrow> nat \<times> batch_page" where
  "setInterval s =
     (nextTimer s, s\<lparr>timers := insert (nextTimer s) (timers s), nextTimer := nextTimer s + 1\<rparr>)"

text \<open>\<^verbatim>\<open>if (statusInterval)\<close>: the variable holds an id, and the id is not 0.\<close>

definition interval_set :: "batch_page \<Rightarrow> bool" where
  "interval_set s = (case statusInterval s of None \<Rightarrow> False | Some t \<Rightarrow> t \<noteq> 0)"

text \<open>The change handler of the file input; the browser has put \<open>f\<close> into the input.\<close>

definition fileInput_change :: "upload option \<Rightarrow> batch_page \<Rightarrow> batch_page" where
  "fileInput_change f s =
     (case f of
        None \<Rightarrow> s\<lparr>fileInput := None\<rparr>
      | Some file \<Rightarrow>
          if f_size file > 1024 * 1024 then
            (showError FileTooLarge s)\<lparr>fileInput := None\<rparr>
          else if f_type file \<noteq> ''text/plain'' \<and> \<not> endsWith (f_name file) ''.txt'' then
            (showError NotTextFile s)\<lparr>fileInput := None\<rparr>
          else s\<lparr>fileInput := Some file, filePreview := Some file\<rparr>)"

definition showBatchStatus :: "batch_page \<Rightarrow> batch_page" where
  "showBatchStatus s = s\<lparr>batchStatusVisible := True\<rparr>"

definition startStatusCheck :: "batch_page \<Rightarrow> batch_page" where
  "startStatusCheck s =
     (let s1 = (if interval_set s then clearInterval (statusInterval s) s else s);
          (t, s2) = setInterval s1
      in s2\<lparr>statusInterval := Some t\<rparr>)"

text \<open>The submit handler up to its \<^verbatim>\<open>await fetch\<close>: the form goes out as it is.\<close>

definition form_submit :: "batch_page \<Rightarrow> batch_page" where
  "form_submit s =
     (let s1 = setLoading True (hideError s)
      in s1\<lparr>pendingSubmit := pendingSubmit s1 + 1,
            b_log := b_log s1 @ [BatchAnalyze (fileInput s1)]\<rparr>)"

text \<open>The rest of the submit handler; \<open>None\<close> is a rejected fetch or a body that is not JSON.\<close>

definition submit_reply :: "submit_json option \<Rightarrow> batch_page \<Rightarrow> batch_page" where
  "submit_reply r s =
     (if pendingSubmit s = 0 then s
      else
        let s1 = s\<lparr>pendingSubmit := pendingSubmit s - 1\<rparr>;
            s2 = (case r of
                    None \<Rightarrow> showError ExceptionMessage s1
                  | Some data \<Rightarrow>
                      if \<not> sb_ok data then
                        showError (if truthy_field (sb_error data)
                                   then ServerError (the (sb_error data))
                                   else BatchStartDefaultError) s1
                      else if truthy_field (sb_error data) then
                        showError (ServerError (the (sb_error data))) s1
                      else startStatusCheck (showBatchStatus (s1\<lparr>batchId := sb_batch_id data\<rparr>)))
        in setLoading False s2)"

text \<open>\<^verbatim>\<open>checkBatchStatus\<close> up to its \<^verbatim>\<open>await fetch\<close>.\<close>

definition checkBatchStatus :: "batch_page \<Rightarrow> batch_page" where
  "checkBatchStatus s =
     (if \<not> truthy_field (batchId s) then s
      else s\<lparr>pendingStatus := pendingStatus s + 1,
             b_log := b_log s @ [StatusReq (the (batchId s))]\<rparr>)"

text \<open>
  \<^verbatim>\<open>updateStatusDisplay\<close>: \<open>Inr\<close> the page when it returns, \<open>Inl\<close> the page as the
  writes before the call of \<^verbatim>\<open>progress.toFixed(1)\<close> left it when that call throws.
\<close>

definition updateStatusDisplay :: "status_json \<Rightarrow> batch_page \<Rightarrow> batch_page + batch_page" where
  "updateStatusDisplay status s =
     (let progress = or_zero (st_progress status);
          s1 = s\<lparr>shownHead := Some
                 \<lparr>h_batchId = batchId s,
                  h_chartType = (if truthy_field (st_chart_type status)
                                 then the (st_chart_type status) else ''N/A''),
                  h_progressWidth = progress\<rparr>\<rparr>
      in case toFixed progress of
           None \<Rightarrow> Inl s1
         | Some percent \<Rightarrow>
             Inr (s1\<lparr>shownRest := Some
                   \<lparr>d_progressPercent = percent,
                    d_progressCount =
                      (case st_completed status of None \<Rightarrow> 0 | Some n \<Rightarrow> n,
                       case st_total status of None \<Rightarrow> 0 | Some n \<Rightarrow> n),
                    d_startTime = (if truthy_field (st_start_time status)
                                   then st_start_time status else None),
                    d_completed = (case st_completed status of None \<Rightarrow> 0 | Some n \<Rightarrow> n),
                    d_failed = (case st_failed status of None \<Rightarrow> 0 | Some n \<Rightarrow> n),
                    d_statusText = (case st_status status of
                                      None \<Rightarrow> Undefined | Some x \<Rightarrow> getStatusText x)\<rparr>\<rparr>))"

text \<open>\<^verbatim>\<open>showBatchResults\<close> up to its \<^verbatim>\<open>await fetch\<close>.\<close>

definition showBatchResults :: "batch_page \<Rightarrow> batch_page" where
  "showBatchResults s =
     s\<lparr>pendingResults := pendingResults s + 1,
       b_log := b_log s @ [ResultsReq (batchId s)]\<rparr>"

text \<open>
  The rest of \<^verbatim>\<open>checkBatchStatus\<close>. Its \<^verbatim>\<open>catch\<close> writes to the console only, and
  it is reached in two ways: by a reply that gives no status object (\<open>None\<close>: a rejected
  fetch, a body that is not JSON, or the body \<^verbatim>\<open>null\<close>, on which reading
  \<^verbatim>\<open>status.error\<close> throws), and by \<^verbatim>\<open>updateStatusDisplay\<close> throwing, which skips
  the test of the status after it.
\<close>

definition status_reply :: "status_json option \<Rightarrow> batch_page \<Rightarrow> batch_page" where
  "status_reply r s =
     (if pendingStatus s = 0 then s
      else
        let s1 = s\<lparr>pendingStatus := pendingStatus s - 1\<rparr> in
        case r of
          None \<Rightarrow> s1
        | Some status \<Rightarrow>
            if truthy_field (st_error status) then
              showError (StatusCheckError (the (st_error status)))
                (clearInterval (statusInterval s1) s1)
            else
              (case updateStatusDisplay status s1 of
                 Inl thrown \<Rightarrow> thrown
               | Inr s2 \<Rightarrow>
                   if st_status status = Some ''completed'' then
                     showBatchResults (clearInterval (statusInterval s2) s2)
                   else if st_status status = Some ''failed'' then
                     showError (if truthy_field (st_error status)
                                then AnalysisFailed (the (st_error status))
                                else AnalysisFailedUnknown)
                       (clearInterval (statusInterval s2) s2)
                   else s2))"

text \<open>The rest of \<^verbatim>\<open>showBatchResults\<close>.\<close>

definition results_reply :: "results_json option \<Rightarrow> batch_page \<Rightarrow> batch_page" where
  "results_reply r s =
     (if pendingResults s = 0 then s
      else
        let s1 = s\<lparr>pendingResults := pendingResults s - 1\<rparr> in
        case r of
          None \<Rightarrow> showError ResultsLoadFailed s1
        | Some data \<Rightarrow>
            if truthy_field (rs_error data) then
              showError (ResultsError (the (rs_error data))) s1
            else s1\<lparr>actions := Some data\<rparr>)"

text \<open>The summary the view button shows: total, successes, failures.\<close>

definition showResultsSummary :: "results_json \<Rightarrow> nat \<times> nat \<times> nat" where
  "showResultsSummary data =
     (case rs_total data of None \<Rightarrow> 0 | Some n \<Rightarrow> n,
      length (filter (\<lambda>r. \<not> truthy_field (snd r)) (rs_results data)),
      length (filter (\<lambda>r. truthy_field (snd r)) (rs_results data)))"

text \<open>The reset handler; the browser empties the file input with the form.\<close>

definition form_reset :: "batch_page \<Rightarrow> batch_page" where
  "form_reset s =
     (let s1 = hideError (s\<lparr>fileInput := None, filePreview := None\<rparr>);
          s2 = s1\<lparr>batchStatusVisible := False\<rparr>;
          s3 = (if interval_set s2
                then (clearInterval (statusInterval s2) s2)\<lparr>statusInterval := None\<rparr>
                else s2)
      in s3\<lparr>batchId := None\<rparr>)"

definition beforeunload :: "batch_page \<Rightarrow> batch_page" where
  "beforeunload s = (if interval_set s then clearInterval (statusInterval s) s else s)"

text \<open>
  What can happen to the page. A tick of timer \<open>t\<close> runs \<^verbatim>\<open>checkBatchStatus\<close> when
  \<open>t\<close> is still set; a reply event is the settling of one pending fetch.
\<close>

datatype event =
    FileSelected "upload option"
  | Submit
  | SubmitReply "submit_json option"
  | Tick nat
  | StatusReply "status_json option"
  | ResultsReply "results_json option"
  | Reset
  | Unload

fun step :: "batch_page \<Rightarrow> event \<Rightarrow> batch_page" where
  "step s (FileSelected f) = fileInput_change f s"
| "step s Submit = form_submit s"
| "step s (SubmitReply r) = submit_reply r s"
| "step s (Tick t) = (if t \<in> timers s then checkBatchStatus s else s)"
| "step s (StatusReply r) = status_reply r s"
| "step s (ResultsReply r) = results_reply r s"
| "step s Reset = form_reset s"
| "step s Unload = beforeunload s"

definition run :: "event list \<Rightarrow> batch_page \<Rightarrow> batch_page" where
  "run es s = foldl step s es"

text \<open>The invariant of the timer bookkeeping.\<close>

definition timers_ok :: "batch_page \<Rightarrow> bool" where
  "timers_ok s =
     (timers s \<subseteq> set_option (statusInterval s) \<and> 0 \<notin> timers s \<and>
      (\<forall>t \<in> timers s. t < nextTimer s) \<and> 0 < nextTimer s)"

text \<open>A submit reply that makes the page poll job \<open>j\<close>.\<close>

fun starts_polling :: "string \<Rightarrow> event \<Rightarrow> bool" where
  "starts_polling j (SubmitReply (Some data)) =
     (sb_ok data \<and> \<not> truthy_field (sb_error data) \<and> sb_batch_id data = Some j)"
| "starts_polling j _ = False"

definition status_requests :: "string \<Rightarrow> batch_page \<Rightarrow> nat" where
  "status_requests j s = length (filter (\<lambda>q. q = StatusReq j) (b_log s))"

text \<open>The checks of the change handler, as a predicate on the file.\<close>

definition acceptable :: "upload \<Rightarrow> bool" where
  "acceptable f =
     (f_size f \<le> 1048576 \<and> (f_type f = ''text/plain'' \<or> endsWith (f_name f) ''.txt''))"

text \<open>
  Job \<open>j\<close> is not being polled: no timer is set, or the page polls another job.
\<close>

definition idle_for :: "string \<Rightarrow> batch_page \<Rightarrow> bool" where
  "idle_for j s = (timers_ok s \<and> (timers s = {} \<or> batchId s \<noteq> Some j))"

text \<open>
  The file in the input, and every file a submission has sent, passed the checks of the
  change handler.
\<close>

definition files_ok :: "batch_page \<Rightarrow> bool" where
  "files_ok s =
     ((case fileInput s of None \<Rightarrow> True | Some f \<Rightarrow> acceptable f) \<and>
      (\<forall>f. BatchAnalyze (Some f) \<in> set (b_log s) \<longrightarrow> acceptable f))"

section \<open>The batch job store and runner\<close>

text \<open>
  The server that answers the page's requests is not among the source files; the store
  and the runner below follow the specification's sections 3, 4.1 and 4.2.
\<close>

text \<open>Modelled from the spec: the \<^verbatim>\<open>status\<close> of a BatchJob (section 3).\<close>

datatype job_status = Waiting | Running | Completed | Failed

text \<open>Modelled from the spec: the error taxonomy of section 7 and the faults of section 4.2.\<close>

datatype fault = InvalidInput | NotFound | InvalidStateTransition | InternalError | JobNotTerminal

text \<open>
  Modelled from the spec: a per-item outcome (section 3), a success payload or
  \<^verbatim>\<open>{stock_code, error}\<close>; the analysis payload is opaque.
\<close>

datatype outcome = Analysis string string | ItemError string string

text \<open>Modelled from the spec: the BatchJob record (section 3).\<close>

record job =
  j_status :: job_status
  j_items :: "string list"
  j_chart_type :: string
  j_total :: nat
  j_completed_count :: nat
  j_failed_count :: nat
  j_start_time :: nat
  j_results :: "outcome list"
  j_error :: "string option"

text \<open>
  Modelled from the spec: the derived \<^verbatim>\<open>progress\<close> of a BatchJob (section 3),
  \<^verbatim>\<open>(completed_count + failed_count) / total * 100\<close>.
\<close>

definition progress :: "job \<Rightarrow> real" where
  "progress j = real (j_completed_count j + j_failed_count j) / real (j_total j) * 100"

text \<open>Modelled from the spec: the number of items of a job that have an outcome.\<close>

definition processed :: "job \<Rightarrow> nat" where
  "processed j = j_completed_count j + j_failed_count j"

text \<open>
  Modelled from the spec: the job BatchRunner.Submit creates (section 4.1), with
  \<^verbatim>\<open>status=running\<close>, \<^verbatim>\<open>total=len(items)\<close>, counts at zero, \<^verbatim>\<open>start_time=now\<close>.
\<close>

definition new_job :: "string list \<Rightarrow> string \<Rightarrow> nat \<Rightarrow> job" where
  "new_job items chart now =
     \<lparr>j_status = Running, j_items = items, j_chart_type = chart, j_total = length items,
      j_completed_count = 0, j_failed_count = 0, j_start_time = now, j_results = [],
      j_error = None\<rparr>"

text \<open>
  Modelled from the spec: the forward transitions of SetStatus (section 4.2),
  \<^verbatim>\<open>waiting\<rightarrow>running\<rightarrow>{completed,failed}\<close>.
\<close>

fun forward :: "job_status \<Rightarrow> job_status \<Rightarrow> bool" where
  "forward Waiting Running = True"
| "forward Running Completed = True"
| "forward Running Failed = True"
| "forward _ _ = False"

text \<open>
  Modelled from the spec: SetStatus on one job (section 4.2): a forward transition is
  made, with the error recorded when the job fails; any other is rejected as an
  InvalidStateTransition fault.
\<close>

definition set_status :: "job \<Rightarrow> job_status \<Rightarrow> string option \<Rightarrow> fault + job" where
  "set_status j x e =
     (if forward (j_status j) x
      then Inr (j\<lparr>j_status := x, j_error := (if x = Failed then e else j_error j)\<rparr>)
      else Inl InvalidStateTransition)"

text \<open>
  Modelled from the spec: UpdateProgress on one job (sections 4.1 and 4.2): the outcome is
  appended to \<^verbatim>\<open>results\<close> and its counter goes up by one.
\<close>

definition update_progress :: "job \<Rightarrow> outcome \<Rightarrow> job" where
  "update_progress j out =
     (case out of
        Analysis c p \<Rightarrow>
          j\<lparr>j_completed_count := j_completed_count j + 1, j_results := j_results j @ [out]\<rparr>
      | ItemError c e \<Rightarrow>
          j\<lparr>j_failed_count := j_failed_count j + 1, j_results := j_results j @ [out]\<rparr>)"

text \<open>Modelled from the spec: the BatchJobStore (section 4.2), jobs keyed by job id.\<close>

type_synonym store = "string \<rightharpoonup> job"

text \<open>Modelled from the spec: Create (section 4.2); a used id is a fatal InternalError.\<close>

definition Create :: "store \<Rightarrow> string \<Rightarrow> job \<Rightarrow> fault + store" where
  "Create st jid j = (if jid \<in> dom st then Inl InternalError else Inr (st(jid \<mapsto> j)))"

text \<open>Modelled from the spec: Get (section 4.2), a job snapshot or NotFound.\<close>

definition Get :: "store \<Rightarrow> string \<Rightarrow> fault + job" where
  "Get st jid = (case st jid of None \<Rightarrow> Inl NotFound | Some j \<Rightarrow> Inr j)"

text \<open>Modelled from the spec: UpdateProgress (section 4.2) on the stored job.\<close>

definition UpdateProgress :: "store \<Rightarrow> string \<Rightarrow> outcome \<Rightarrow> fault + store" where
  "UpdateProgress st jid out =
     (case st jid of None \<Rightarrow> Inl NotFound | Some j \<Rightarrow> Inr (st(jid \<mapsto> update_progress j out)))"

text \<open>Modelled from the spec: SetStatus (section 4.2) on the stored job.\<close>

definition SetStatus :: "store \<Rightarrow> string \<Rightarrow> job_status \<Rightarrow> string option \<Rightarrow> fault + store" where
  "SetStatus st jid x e =
     (case st jid of
        None \<Rightarrow> Inl NotFound
      | Some j \<Rightarrow> (case set_status j x e of Inl f \<Rightarrow> Inl f | Inr j' \<Rightarrow> Inr (st(jid \<mapsto> j'))))"

text \<open>Modelled from the spec: the calls a client of the store can make (section 4.2).\<close>

datatype store_op =
    OpCreate string job
  | OpUpdateProgress string outcome
  | OpSetStatus string job_status "string option"

text \<open>Modelled from the spec: the store operation a call names (section 4.2).\<close>

fun store_call :: "store \<Rightarrow> store_op \<Rightarrow> fault + store" where
  "store_call st (OpCreate jid j) = Create st jid j"
| "store_call st (OpUpdateProgress jid out) = UpdateProgress st jid out"
| "store_call st (OpSetStatus jid x e) = SetStatus st jid x e"

text \<open>Modelled from the spec: the store after one call; a fault changes nothing.\<close>

definition store_step :: "store \<Rightarrow> store_op \<Rightarrow> store" where
  "store_step st c = (case store_call st c of Inl f \<Rightarrow> st | Inr st' \<Rightarrow> st')"

text \<open>Modelled from the spec: the store after a sequence of calls.\<close>

definition store_run :: "store_op list \<Rightarrow> store \<Rightarrow> store" where
  "store_run cs st = foldl store_step st cs"

text \<open>Modelled from the spec: the terminal states of the glossary.\<close>

definition terminal :: "job_status \<Rightarrow> bool" where
  "terminal x = (x = Completed \<or> x = Failed)"

text \<open>
  Modelled from the spec: one invocation of the AnalysisUnit (sections 2 and 6) by the
  runner: \<open>analyze\<close> maps a stock code to an error (\<open>Inl\<close>) or a payload.
\<close>

definition analyse_item :: "(string \<Rightarrow> string + string) \<Rightarrow> string \<Rightarrow> outcome" where
  "analyse_item analyze c =
     (case analyze c of Inl e \<Rightarrow> ItemError c e | Inr p \<Rightarrow> Analysis c p)"

text \<open>
  Modelled from the spec: the worker pool of sections 4.1 and 5. The items finish in any
  order; \<open>next_pick\<close> reads from a schedule which of the \<open>n\<close> pending items is the
  next to finish, and \<open>finish_order\<close> is the order in which the items of the job
  finish under the schedule, every item being analysed once.
\<close>

definition next_pick :: "nat list \<Rightarrow> nat \<Rightarrow> nat" where
  "next_pick sched n = (case sched of [] \<Rightarrow> 0 | k # ks \<Rightarrow> k mod n)"

function finish_order :: "nat list \<Rightarrow> string list \<Rightarrow> string list" where
  "finish_order sched pending =
     (if pending = [] then []
      else
        let i = next_pick sched (length pending)
        in pending ! i # finish_order (tl sched) (take i pending @ drop (Suc i) pending))"
  by pat_completeness auto
termination
proof (relation "measure (\<lambda>(sched, pending). length pending)")
  show "wf (measure (\<lambda>(sched, pending). length pending))" by simp
next
  fix sched :: "nat list" and pending :: "string list" and i :: nat
  assume ne: "pending \<noteq> []" and i: "i = next_pick sched (length pending)"
  have "i < length pending"
    using ne by (simp add: i next_pick_def split: list.splits)
  then show "((tl sched, take i pending @ drop (Suc i) pending), (sched, pending))
             \<in> measure (\<lambda>(sched, pending). length pending)"
    by simp
qed

declare finish_order.simps [simp del]

text \<open>
  Modelled from the spec: the job after each item the runner finishes (section 4.1), in
  the order the items finish.
\<close>

fun job_trace :: "(string \<Rightarrow> string + string) \<Rightarrow> job \<Rightarrow> string list \<Rightarrow> job list" where
  "job_trace analyze j [] = []"
| "job_trace analyze j (c # cs) =
     (let j' = update_progress j (analyse_item analyze c)
      in j' # job_trace analyze j' cs)"

text \<open>
  Modelled from the spec: the end of processing (section 4.1): \<^verbatim>\<open>completed\<close> unless a
  job-level fault occurred, then \<^verbatim>\<open>failed\<close> with the error set.
\<close>

definition finish :: "job \<Rightarrow> string option \<Rightarrow> job" where
  "finish j fault_reason =
     (case set_status j (case fault_reason of None \<Rightarrow> Completed | Some r \<Rightarrow> Failed)
             fault_reason of
        Inl f \<Rightarrow> j
      | Inr j' \<Rightarrow> j')"

text \<open>
  Modelled from the spec: the remaining items of a job that fails on a job-level fault are
  marked as not processed (section 4.1): each gets a \<^verbatim>\<open>{stock_code, error}\<close> outcome
  that says so and counts among the failed, which is what the invariant of section 3 asks
  of a failed job (\<^verbatim>\<open>completed_count + failed_count == total\<close>).
\<close>

definition mark_not_processed :: "job \<Rightarrow> string list \<Rightarrow> job" where
  "mark_not_processed j remaining =
     foldl (\<lambda>j c. update_progress j (ItemError c ''not processed'')) j remaining"

text \<open>
  Modelled from the spec: when a job-level fault \<open>(k, reason)\<close> strikes: after \<open>k\<close>
  items have finished, if items are still pending then; a job whose items have all
  finished is completed and stays so (a terminal job is immutable, section 3).
\<close>

definition striking :: "string list \<Rightarrow> (nat \<times> string) option \<Rightarrow> (nat \<times> string) option" where
  "striking items job_fault =
     (case job_fault of
        None \<Rightarrow> None
      | Some (k, reason) \<Rightarrow> if k < length items then Some (k, reason) else None)"

text \<open>
  Modelled from the spec: BatchRunner.Submit and the processing that follows
  (section 4.1), as the list of the states of the job a status poll can see, oldest
  first. An empty list of items is rejected as InvalidInput. Every counter update is
  visible at once (section 4.1) and no reader sees a partial update (section 5): the
  counter update for the last item and the status \<^verbatim>\<open>completed\<close> reach the store as one
  update, and so do the marking of the remaining items and the status \<^verbatim>\<open>failed\<close> when a
  job-level fault strikes.
\<close>

definition batch_states ::
  "(string \<Rightarrow> string + string) \<Rightarrow> string list \<Rightarrow> nat list \<Rightarrow> string \<Rightarrow> nat \<Rightarrow>
   (nat \<times> string) option \<Rightarrow> fault + job list" where
  "batch_states analyze items sched chart now job_fault =
     (if items = [] then Inl InvalidInput
      else
        let j0 = new_job items chart now;
            order = finish_order sched items
        in case striking items job_fault of
             None \<Rightarrow>
               (let mid = job_trace analyze j0 order
                in Inr (j0 # butlast mid @ [finish (last mid) None]))
           | Some (k, reason) \<Rightarrow>
               (let mid = job_trace analyze j0 (take k order)
                in Inr (j0 # mid @
                          [finish (mark_not_processed (last (j0 # mid)) (drop k order))
                             (Some reason)])))"

text \<open>Modelled from the spec: the number of items whose analysis fails.\<close>

definition failing :: "(string \<Rightarrow> string + string) \<Rightarrow> string list \<Rightarrow> nat" where
  "failing analyze items = length (filter (\<lambda>c. isl (analyze c)) items)"

section \<open>Example states\<close>

definition ok_reply :: "string \<Rightarrow> submit_json" where
  "ok_reply j = \<lparr>sb_ok = True, sb_error = None, sb_batch_id = Some j\<rparr>"

definition status_body :: "string option \<Rightarrow> string option \<Rightarrow> status_json" where
  "status_body e st =
     \<lparr>st_error = e, st_status = st, st_chart_type = Some ''day'', st_progress = Some (JNumber 50),
      st_completed = Some 1, st_failed = Some 0, st_total = Some 2,
      st_start_time = Some ''2024-01-01T09:00:00''\<rparr>"

definition polling_example :: batch_page where
  "polling_example = run [Submit, SubmitReply (Some (ok_reply ''b1'')), Tick 1] batch_init"

definition two_codes :: "string list" where
  "two_codes = [''005930'', ''000660'']"

definition one_bad :: "string \<Rightarrow> string + string" where
  "one_bad c = (if c = ''000660'' then Inl ''no data'' else Inr ''payload'')"

section \<open>Properties of the single analysis page\<close>

lemma white_space_heads:
  "\<forall>w \<in> set white_space. \<not> digit (hd w)"
  "\<forall>w \<in> set (map rev white_space). \<not> digit (hd w)"
  by (simp_all add: white_space_def digit_def)

lemma strip_leading_digits:
  assumes "\<forall>w \<in> set ws. \<not> digit (hd w)" and "list_all digit s"
  shows "strip_leading ws s = s"
proof -
  have "\<not> (w \<noteq> [] \<and> starts_with s w)" if "w \<in> set ws" for w
  proof
    assume h: "w \<noteq> [] \<and> starts_with s w"
    then have "s \<noteq> []" by (auto simp: starts_with_def)
    with h have "hd w = hd s" by (cases s; cases w) (auto simp: starts_with_def)
    moreover have "digit (hd s)" using assms(2) \<open>s \<noteq> []\<close> by (cases s) simp_all
    ultimately show False using assms(1) that by auto
  qed
  then have "find (\<lambda>w. w \<noteq> [] \<and> starts_with s w) ws = None"
    by (simp add: find_None_iff)
  then show ?thesis by (subst strip_leading.simps) simp
qed

lemma trim_digits: "list_all digit s \<Longrightarrow> trim s = s"
proof -
  assume d: "list_all digit s"
  have a: "strip_leading white_space s = s"
    using white_space_heads(1) d by (rule strip_leading_digits)
  have "list_all digit (rev s)" using d by (simp add: list_all_iff)
  with white_space_heads(2) have "strip_leading (map rev white_space) (rev s) = rev s"
    by (rule strip_leading_digits)
  with a show ?thesis by (simp add: trim_def)
qed

lemma stockCodeInput_input_digits: "list_all digit (stockCodeInput_input v)"
  by (auto simp: stockCodeInput_input_def at_most_six_digits_def list_all_iff)

text \<open>
  Claim C8. Whatever the user leaves in the stock code field, after the input handler has
  run on it a submission sends a request exactly when the field holds six digits, and the
  request carries that code; otherwise nothing is sent and the six-digit error is shown.
  A six-digit code passes the input handler unchanged. \<^verbatim>\<open>005930\<close> is sent;
  \<^verbatim>\<open>59300\<close> is not; \<^verbatim>\<open>00593a\<close> loses its letter in the input handler and the five
  digits left are not sent.
\<close>

theorem single_submit_sends_iff_six_digits:
  "(let code = stockCodeInput_input v;
        s' = single_submit (single_input v s)
    in (s_log s' \<noteq> s_log s \<longleftrightarrow> six_digits code) \<and>
       (six_digits code \<longrightarrow>
          s_log s' = s_log s @ [SingleAnalyze code (chart_type s)] \<and>
          s_pending s' = s_pending s + 1) \<and>
       (\<not> six_digits code \<longrightarrow>
          s_log s' = s_log s \<and> s_pending s' = s_pending s \<and>
          s_error s' = Some SixDigitsRequired)) \<and>
   (six_digits v \<longrightarrow> stockCodeInput_input v = v) \<and>
   six_digits (stockCodeInput_input ''005930'') \<and>
   \<not> six_digits (stockCodeInput_input ''59300'') \<and>
   stockCodeInput_input ''00593a'' = ''00593'' \<and>
   \<not> six_digits (stockCodeInput_input ''00593a'')"
proof -
  have d: "list_all digit (stockCodeInput_input v)"
    by (rule stockCodeInput_input_digits)
  have t: "trim (stockCodeInput_input v) = stockCodeInput_input v"
    using d by (rule trim_digits)
  have main: "let code = stockCodeInput_input v;
        s' = single_submit (single_input v s)
    in (s_log s' \<noteq> s_log s \<longleftrightarrow> six_digits code) \<and>
       (six_digits code \<longrightarrow>
          s_log s' = s_log s @ [SingleAnalyze code (chart_type s)] \<and>
          s_pending s' = s_pending s + 1) \<and>
       (\<not> six_digits code \<longrightarrow>
          s_log s' = s_log s \<and> s_pending s' = s_pending s \<and>
          s_error s' = Some SixDigitsRequired)"
    using d by (auto simp: Let_def single_submit_def single_input_def t six_digits_def)
  have keep: "six_digits v \<longrightarrow> stockCodeInput_input v = v"
    by (simp add: six_digits_def stockCodeInput_input_def at_most_six_digits_def)
  have ex: "six_digits (stockCodeInput_input ''005930'') \<and>
   \<not> six_digits (stockCodeInput_input ''59300'') \<and>
   stockCodeInput_input ''00593a'' = ''00593'' \<and>
   \<not> six_digits (stockCodeInput_input ''00593a'')"
    by (simp add: six_digits_def stockCodeInput_input_def at_most_six_digits_def digit_def)
  from main keep ex show ?thesis by blast
qed

theorem single_submit_sends_iff_six_digits_witness:
  "six_digits (stockCodeInput_input ''005930'') \<and>
   s_log (single_run [SInput ''005930'', SSubmit] single_init) = [SingleAnalyze ''005930'' []] \<and>
   \<not> six_digits (stockCodeInput_input ''00593a'') \<and>
   s_log (single_run [SInput ''00593a'', SSubmit] single_init) = [] \<and>
   s_error (single_run [SInput ''00593a'', SSubmit] single_init) = Some SixDigitsRequired"
proof -
  have a: "stockCodeInput_input ''005930'' = ''005930''"
    by (simp add: stockCodeInput_input_def at_most_six_digits_def digit_def)
  have b: "six_digits ''005930''"
    by (simp add: six_digits_def digit_def)
  have c: "s_log single_init = [] \<and> chart_type single_init = []"
    by (simp add: single_init_def)
  have a': "stockCodeInput_input ''00593a'' = ''00593''"
    by (simp add: stockCodeInput_input_def at_most_six_digits_def digit_def)
  have b': "\<not> six_digits ''00593''"
    by (simp add: six_digits_def)
  have good: "s_log (single_submit (single_input ''005930'' single_init)) =
      [SingleAnalyze ''005930'' []]"
    using single_submit_sends_iff_six_digits [of "''005930''" single_init] a b c
    by (simp add: Let_def)
  have bad: "s_log (single_submit (single_input ''00593a'' single_init)) = [] \<and>
      s_error (single_submit (single_input ''00593a'' single_init)) = Some SixDigitsRequired"
    using single_submit_sends_iff_six_digits [of "''00593a''" single_init] a' b' c
    by (simp add: Let_def)
  from good bad a b a' b' show ?thesis by (simp add: single_run_def)
qed

lemma getStatusText_labels:
  "getStatusText ''running'' = Str label_running"
  "getStatusText ''completed'' = Str label_completed"
  "getStatusText ''failed'' = Str label_failed"
  "getStatusText ''waiting'' = Str label_waiting"
  by (simp_all add: getStatusText_def object_get_def statusMap_def label_running_def
        label_completed_def label_failed_def label_waiting_def)

lemma getStatusText_other:
  "status \<notin> {''running'', ''completed'', ''failed'', ''waiting''} \<Longrightarrow>
   status \<notin> set Object_prototype_keys \<Longrightarrow> getStatusText status = Str status"
  by (simp add: getStatusText_def object_get_def statusMap_def)

text \<open>
  Claim C9. The claim lets every string other than the four status names through
  unchanged. For the name of a member inherited from \<^verbatim>\<open>Object.prototype\<close> the lookup
  \<^verbatim>\<open>statusMap[status]\<close> finds that member, which is truthy, so \<^verbatim>\<open>getStatusText\<close>
  returns it and not the input string: here for \<^verbatim>\<open>constructor\<close>.
\<close>

theorem getStatusText_inherited_member:
  "getStatusText ''constructor'' = Inherited ''constructor'' \<and>
   getStatusText ''constructor'' \<noteq> Str ''constructor'' \<and>
   ''constructor'' \<notin> {''waiting'', ''running'', ''completed'', ''failed''}"
  by (simp add: getStatusText_def object_get_def statusMap_def Object_prototype_keys_def)

section \<open>Properties of the batch analysis page\<close>

lemmas handler_defs =
  showError_def hideError_def setLoading_def clearInterval_def setInterval_def
  interval_set_def fileInput_change_def showBatchStatus_def startStatusCheck_def
  form_submit_def submit_reply_def checkBatchStatus_def
  showBatchResults_def results_reply_def form_reset_def beforeunload_def

text \<open>What the display update and the status reply leave as it was.\<close>

lemma updateStatusDisplay_frame:
  "updateStatusDisplay st s = Inl s' \<or> updateStatusDisplay st s = Inr s' \<Longrightarrow>
   batchId s' = batchId s \<and> statusInterval s' = statusInterval s \<and>
   timers s' = timers s \<and> nextTimer s' = nextTimer s \<and> fileInput s' = fileInput s \<and>
   b_log s' = b_log s \<and> b_error s' = b_error s \<and>
   pendingResults s' = pendingResults s \<and> pendingStatus s' = pendingStatus s"
  by (auto simp: updateStatusDisplay_def Let_def split: option.splits)

lemma updateStatusDisplay_Inl: "updateStatusDisplay st s = Inl s' \<Longrightarrow>
   batchId s' = batchId s \<and> statusInterval s' = statusInterval s \<and>
   timers s' = timers s \<and> nextTimer s' = nextTimer s \<and> fileInput s' = fileInput s \<and>
   b_log s' = b_log s \<and> b_error s' = b_error s \<and>
   pendingResults s' = pendingResults s \<and> pendingStatus s' = pendingStatus s"
  using updateStatusDisplay_frame by blast

lemma updateStatusDisplay_Inr: "updateStatusDisplay st s = Inr s' \<Longrightarrow>
   batchId s' = batchId s \<and> statusInterval s' = statusInterval s \<and>
   timers s' = timers s \<and> nextTimer s' = nextTimer s \<and> fileInput s' = fileInput s \<and>
   b_log s' = b_log s \<and> b_error s' = b_error s \<and>
   pendingResults s' = pendingResults s \<and> pendingStatus s' = pendingStatus s"
  using updateStatusDisplay_frame by blast

lemma status_reply_frame:
  "batchId (status_reply x s) = batchId s"
  "statusInterval (status_reply x s) = statusInterval s"
  "nextTimer (status_reply x s) = nextTimer s"
  "fileInput (status_reply x s) = fileInput s"
  "timers (status_reply x s) \<subseteq> timers s"
  "filter (\<lambda>q. q = StatusReq j) (b_log (status_reply x s)) =
     filter (\<lambda>q. q = StatusReq j) (b_log s)"
  "BatchAnalyze f \<in> set (b_log (status_reply x s)) \<longleftrightarrow> BatchAnalyze f \<in> set (b_log s)"
  by (auto simp: status_reply_def Let_def showError_def clearInterval_def showBatchResults_def
        split: option.splits sum.splits
        dest!: updateStatusDisplay_Inl updateStatusDisplay_Inr)

lemma timers_ok_init: "timers_ok batch_init"
  by (simp add: timers_ok_def batch_init_def)

lemma startStatusCheck_timers:
  "timers_ok s \<Longrightarrow> timers (startStatusCheck s) = {nextTimer s} \<and>
     statusInterval (startStatusCheck s) = Some (nextTimer s) \<and>
     nextTimer (startStatusCheck s) = nextTimer s + 1"
  by (auto simp: timers_ok_def startStatusCheck_def interval_set_def clearInterval_def
        setInterval_def split: option.splits)

lemma clear_status_timers:
  "timers_ok s \<Longrightarrow> timers (clearInterval (statusInterval s) s) = {}"
  by (auto simp: timers_ok_def clearInterval_def split: option.splits)

lemma step_timers_ok: "timers_ok s \<Longrightarrow> timers_ok (step s e)"
proof (cases e)
  case (SubmitReply r)
  assume ok: "timers_ok s"
  show ?thesis
  proof (cases "pendingSubmit s = 0 \<or> r = None \<or> \<not> sb_ok (the r) \<or> truthy_field (sb_error (the r))")
    case True
    with ok SubmitReply show ?thesis
      by (auto simp: timers_ok_def submit_reply_def showError_def setLoading_def Let_def
            split: option.splits)
  next
    case False
    then obtain d where r: "r = Some d" by auto
    let ?s1 = "showBatchStatus (s\<lparr>pendingSubmit := pendingSubmit s - 1, batchId := sb_batch_id d\<rparr>)"
    have ok1: "timers_ok ?s1" using ok by (simp add: timers_ok_def showBatchStatus_def)
    have "step s e = setLoading False (startStatusCheck ?s1)"
      using False r SubmitReply by (simp add: submit_reply_def Let_def)
    moreover have "timers_ok (startStatusCheck ?s1)"
      using startStatusCheck_timers [OF ok1] ok1 by (simp add: timers_ok_def)
    ultimately show ?thesis by (simp add: timers_ok_def setLoading_def)
  qed
next
  case (StatusReply x)
  assume ok: "timers_ok s"
  with StatusReply status_reply_frame(5) [of x s] show ?thesis
    by (auto simp: timers_ok_def status_reply_frame(2,3))
qed (auto simp: timers_ok_def handler_defs Let_def split: option.splits)

lemma run_timers_ok: "timers_ok s \<Longrightarrow> timers_ok (run es s)"
  unfolding run_def by (induction es arbitrary: s) (simp_all add: step_timers_ok)

lemma run_append: "run (es @ es') s = run es' (run es s)"
  by (simp add: run_def)

lemma reachable_timers_ok: "timers_ok (run es batch_init)"
  by (rule run_timers_ok [OF timers_ok_init])

lemma truthy_field_Some: "truthy_field x \<Longrightarrow> x = Some (the x)"
  by (cases x) simp_all

lemma step_idle_requests:
  "idle_for j s \<Longrightarrow> status_requests j (step s e) = status_requests j s"
proof (cases e)
  case (StatusReply x)
  then show ?thesis by (simp add: status_requests_def status_reply_frame(6))
qed (auto simp: idle_for_def status_requests_def handler_defs Let_def
       split: option.splits dest: truthy_field_Some)

lemma step_idle_timers:
  "timers s = {} \<Longrightarrow> \<not> starts_polling j e \<Longrightarrow> batchId (step s e) = Some j \<Longrightarrow>
   timers (step s e) = {}"
proof (cases e)
  case (StatusReply x)
  assume "timers s = {}"
  with StatusReply status_reply_frame(5) [of x s] show ?thesis by simp
qed (auto simp: handler_defs Let_def split: option.splits if_splits)

lemma step_idle_batchId:
  "batchId s \<noteq> Some j \<Longrightarrow> \<not> starts_polling j e \<Longrightarrow> batchId (step s e) \<noteq> Some j"
proof (cases e)
  case (StatusReply x)
  assume "batchId s \<noteq> Some j"
  with StatusReply show ?thesis by (simp add: status_reply_frame(1))
qed (auto simp: handler_defs Let_def split: option.splits if_splits)

lemma step_idle:
  assumes "idle_for j s" and "\<not> starts_polling j e"
  shows "idle_for j (step s e)"
proof -
  have ok: "timers_ok (step s e)"
    using assms(1) by (simp add: idle_for_def step_timers_ok)
  have "timers (step s e) = {} \<or> batchId (step s e) \<noteq> Some j"
    using assms step_idle_timers [of s j e] step_idle_batchId [of s j e]
    by (auto simp: idle_for_def)
  with ok show ?thesis by (simp add: idle_for_def)
qed

lemma run_idle:
  "idle_for j s \<Longrightarrow> list_all (\<lambda>e. \<not> starts_polling j e) es \<Longrightarrow>
   idle_for j (run es s) \<and> status_requests j (run es s) = status_requests j s"
proof (induction es arbitrary: s)
  case Nil
  then show ?case by (simp add: run_def)
next
  case (Cons e es)
  from Cons.prems have i: "idle_for j (step s e)" by (simp add: step_idle)
  from Cons.prems have r: "list_all (\<lambda>e. \<not> starts_polling j e) es" by simp
  from Cons.IH [OF i r] step_idle_requests [OF Cons.prems(1), of e]
  show ?case by (simp add: run_def)
qed

lemma polling_example_fields:
  "batchId polling_example = Some ''b1''"
  "statusInterval polling_example = Some 1"
  "timers polling_example = {1}"
  "pendingStatus polling_example = 1"
  "b_error polling_example = None"
  "b_log polling_example = [BatchAnalyze None, StatusReq ''b1'']"
  "pendingResults polling_example = 0"
  by (simp_all add: polling_example_def run_def batch_init_def ok_reply_def handler_defs)

lemma ticks_accumulate:
  "t \<in> timers s \<Longrightarrow> truthy_field (batchId s) \<Longrightarrow>
   pendingStatus (run (replicate n (Tick t)) s) = pendingStatus s + n \<and>
   timers (run (replicate n (Tick t)) s) = timers s \<and>
   batchId (run (replicate n (Tick t)) s) = batchId s"
proof (induction n arbitrary: s)
  case 0
  then show ?case by (simp add: run_def)
next
  case (Suc n)
  have a: "t \<in> timers (step s (Tick t))" using Suc.prems by (simp add: checkBatchStatus_def)
  have b: "truthy_field (batchId (step s (Tick t)))"
    using Suc.prems by (simp add: checkBatchStatus_def)
  have c: "pendingStatus (step s (Tick t)) = pendingStatus s + 1 \<and>
           timers (step s (Tick t)) = timers s \<and> batchId (step s (Tick t)) = batchId s"
    using Suc.prems by (simp add: checkBatchStatus_def)
  have r: "run (replicate (Suc n) (Tick t)) s = run (replicate n (Tick t)) (step s (Tick t))"
    by (simp add: run_def)
  from Suc.IH [OF a b] c show ?case unfolding r by simp
qed

text \<open>
  Claim C1 says a tick is a no-op while a status request is in flight. In the example
  state one status request for job \<^verbatim>\<open>b1\<close> is pending; the next tick sends a second.
\<close>

theorem overlapping_polls_counterexample:
  "pendingStatus (step polling_example (Tick 1)) = 2 \<and>
   b_log (step polling_example (Tick 1)) =
     [BatchAnalyze None, StatusReq ''b1'', StatusReq ''b1'']"
  by (simp add: polling_example_fields checkBatchStatus_def)

text \<open>
  Claim C1, as the code has it: while the page polls (the timer is set and \<open>batchId\<close>
  holds a job id), every tick sends a status request for that job id and adds one to the
  requests in flight, however many are in flight already: \<open>n\<close> ticks without a reply
  in between leave \<open>n\<close> more requests in flight.
\<close>

theorem tick_requests_whatever_is_pending:
  "t \<in> timers s \<Longrightarrow> truthy_field (batchId s) \<Longrightarrow>
   pendingStatus (step s (Tick t)) = pendingStatus s + 1 \<and>
   b_log (step s (Tick t)) = b_log s @ [StatusReq (the (batchId s))] \<and>
   pendingStatus (run (replicate n (Tick t)) s) = pendingStatus s + n"
proof -
  assume t: "t \<in> timers s" and b: "truthy_field (batchId s)"
  have one: "pendingStatus (step s (Tick t)) = pendingStatus s + 1 \<and>
      b_log (step s (Tick t)) = b_log s @ [StatusReq (the (batchId s))]"
    using t b by (simp add: checkBatchStatus_def)
  from one ticks_accumulate [OF t b, of n] show ?thesis by simp
qed

theorem tick_requests_whatever_is_pending_witness:
  "1 \<in> timers polling_example \<and> truthy_field (batchId polling_example) \<and>
   pendingStatus polling_example = 1 \<and>
   pendingStatus (step polling_example (Tick 1)) = 2 \<and>
   pendingStatus (run (replicate 5 (Tick 1)) polling_example) = 6"
proof -
  have a: "1 \<in> timers polling_example" by (simp add: polling_example_fields)
  have b: "truthy_field (batchId polling_example)" by (simp add: polling_example_fields)
  from tick_requests_whatever_is_pending [OF a b, of 5] a b
  show ?thesis by (simp add: polling_example_fields)
qed

lemma quiet_after:
  "timers_ok s \<Longrightarrow> timers s = {} \<Longrightarrow> list_all (\<lambda>e. \<not> starts_polling j e) es \<Longrightarrow>
   status_requests j (run es s) = status_requests j s"
  using run_idle [of j s es] by (simp add: idle_for_def)

lemma status_reply_error:
  assumes "timers_ok s" "0 < pendingStatus s" "truthy_field (st_error r)"
  shows "timers (step s (StatusReply (Some r))) = {}"
    and "b_error (step s (StatusReply (Some r))) = Some (StatusCheckError (the (st_error r)))"
    and "b_log (step s (StatusReply (Some r))) = b_log s"
  using assms
  by (auto simp: timers_ok_def status_reply_def showError_def clearInterval_def Let_def
        split: option.splits)

lemma status_reply_completed:
  assumes "timers_ok s" "0 < pendingStatus s" "\<not> truthy_field (st_error r)"
    "toFixed (or_zero (st_progress r)) = Some p" "st_status r = Some ''completed''"
  shows "timers (step s (StatusReply (Some r))) = {}"
    and "b_log (step s (StatusReply (Some r))) = b_log s @ [ResultsReq (batchId s)]"
    and "pendingResults (step s (StatusReply (Some r))) = pendingResults s + 1"
  using assms
  by (auto simp: timers_ok_def status_reply_def showBatchResults_def updateStatusDisplay_def
        clearInterval_def Let_def split: option.splits)

lemma status_reply_failed:
  assumes "timers_ok s" "0 < pendingStatus s" "\<not> truthy_field (st_error r)"
    "toFixed (or_zero (st_progress r)) = Some p" "st_status r = Some ''failed''"
  shows "timers (step s (StatusReply (Some r))) = {}"
    and "b_error (step s (StatusReply (Some r))) = Some AnalysisFailedUnknown"
    and "b_log (step s (StatusReply (Some r))) = b_log s"
  using assms
  by (auto simp: timers_ok_def status_reply_def showError_def updateStatusDisplay_def
        clearInterval_def Let_def split: option.splits)

text \<open>
  When \<^verbatim>\<open>updateStatusDisplay\<close> throws, the reply ends in the \<^verbatim>\<open>catch\<close>: whatever
  status it carries, the timer, the error box and the requests sent stay as they were.
\<close>

lemma status_reply_display_throws:
  assumes "0 < pendingStatus s" "\<not> truthy_field (st_error r)"
    "toFixed (or_zero (st_progress r)) = None"
  shows "timers (step s (StatusReply (Some r))) = timers s"
    and "statusInterval (step s (StatusReply (Some r))) = statusInterval s"
    and "b_error (step s (StatusReply (Some r))) = b_error s"
    and "b_log (step s (StatusReply (Some r))) = b_log s"
    and "pendingResults (step s (StatusReply (Some r))) = pendingResults s"
  using assms
  by (simp_all add: status_reply_def updateStatusDisplay_def Let_def)

lemma status_reply_terminal_timers:
  assumes "timers_ok s" "0 < pendingStatus s"
    "truthy_field (st_error r) \<or>
     ((st_status r = Some ''completed'' \<or> st_status r = Some ''failed'') \<and>
      toFixed (or_zero (st_progress r)) \<noteq> None)"
  shows "timers (step s (StatusReply (Some r))) = {}"
proof (cases "truthy_field (st_error r)")
  case True
  then show ?thesis using status_reply_error(1) [OF assms(1,2)] by simp
next
  case False
  with assms(3) obtain p where p: "toFixed (or_zero (st_progress r)) = Some p"
    and st: "st_status r = Some ''completed'' \<or> st_status r = Some ''failed''" by auto
  from st show ?thesis
    using status_reply_completed(1) [OF assms(1,2) False p]
      status_reply_failed(1) [OF assms(1,2) False p] by blast
qed

lemma status_reply_transport:
  "timers (step s (StatusReply None)) = timers s"
  "statusInterval (step s (StatusReply None)) = statusInterval s"
  "batchId (step s (StatusReply None)) = batchId s"
  "b_error (step s (StatusReply None)) = b_error s"
  "b_log (step s (StatusReply None)) = b_log s"
  by (simp_all add: status_reply_def Let_def)

text \<open>
  Claim C2, as the code has it. In every state the page can reach with a status request
  pending: a reply whose body carries a non-empty \<^verbatim>\<open>error\<close> field (as for an unknown
  job) clears the timer and shows the error message, and from then on no status request
  for a job \<open>j\<close> goes out unless a later submission is answered with \<open>j\<close>; a
  transport error (rejected fetch, unparsable body) changes neither the timer nor the
  error display nor the requests sent, it is written to the console only.
\<close>

theorem status_error_reply_stops_polling:
  "let s = run es0 batch_init in
   0 < pendingStatus s \<longrightarrow>
     (truthy_field (st_error r) \<longrightarrow>
        (let s' = step s (StatusReply (Some r)) in
           timers s' = {} \<and>
           b_error s' = Some (StatusCheckError (the (st_error r))) \<and>
           (\<forall>j es. list_all (\<lambda>e. \<not> starts_polling j e) es \<longrightarrow>
                    status_requests j (run es s') = status_requests j s'))) \<and>
     (let s' = step s (StatusReply None) in
        timers s' = timers s \<and> statusInterval s' = statusInterval s \<and>
        batchId s' = batchId s \<and> b_error s' = b_error s \<and> b_log s' = b_log s)"
proof -
  define s where "s = run es0 batch_init"
  have ok: "timers_ok s" unfolding s_def by (rule reachable_timers_ok)
  have ok': "timers_ok (step s (StatusReply (Some r)))"
    using ok by (rule step_timers_ok)
  have a: "0 < pendingStatus s \<Longrightarrow> truthy_field (st_error r) \<Longrightarrow>
      timers (step s (StatusReply (Some r))) = {} \<and>
      b_error (step s (StatusReply (Some r))) = Some (StatusCheckError (the (st_error r))) \<and>
      (\<forall>j es. list_all (\<lambda>e. \<not> starts_polling j e) es \<longrightarrow>
          status_requests j (run es (step s (StatusReply (Some r)))) =
          status_requests j (step s (StatusReply (Some r))))"
    using status_reply_error [OF ok, of r] quiet_after [OF ok'] by blast
  from a status_reply_transport [of s] show ?thesis
    unfolding s_def [symmetric] Let_def by blast
qed


text \<open>
  Claim C2 says a transport error stops the timer and shows the error. In the example
  state the failed status fetch leaves timer 1 set and no error shown, and the next tick
  asks for the status again.
\<close>

theorem transport_error_keeps_polling_counterexample:
  "timers (step polling_example (StatusReply None)) = {1} \<and>
   b_error (step polling_example (StatusReply None)) = None \<and>
   b_log (step (step polling_example (StatusReply None)) (Tick 1)) =
     [BatchAnalyze None, StatusReq ''b1'', StatusReq ''b1'']"
  by (simp add: polling_example_fields status_reply_def checkBatchStatus_def Let_def)

theorem status_error_reply_stops_polling_witness:
  "0 < pendingStatus polling_example \<and>
   truthy_field (st_error (status_body (Some ''not found'') None)) \<and>
   list_all (\<lambda>e. \<not> starts_polling ''b1'' e) [Tick 1, Tick 1] \<and>
   timers (step polling_example
             (StatusReply (Some (status_body (Some ''not found'') None)))) = {} \<and>
   b_error (step polling_example
              (StatusReply (Some (status_body (Some ''not found'') None)))) =
     Some (StatusCheckError ''not found'') \<and>
   status_requests ''b1''
     (run [Tick 1, Tick 1]
        (step polling_example
           (StatusReply (Some (status_body (Some ''not found'') None))))) =
   status_requests ''b1''
     (step polling_example (StatusReply (Some (status_body (Some ''not found'') None))))"
proof -
  have p: "0 < pendingStatus polling_example" by (simp add: polling_example_fields)
  have e: "truthy_field (st_error (status_body (Some ''not found'') None))"
    by (simp add: status_body_def)
  have q: "list_all (\<lambda>e. \<not> starts_polling ''b1'' e) [Tick 1, Tick 1]" by simp
  have v: "the (st_error (status_body (Some ''not found'') None)) = ''not found''"
    by (simp add: status_body_def)
  from status_error_reply_stops_polling
         [of "[Submit, SubmitReply (Some (ok_reply ''b1'')), Tick 1]"
             "status_body (Some ''not found'') None"]
  have "timers (step polling_example
             (StatusReply (Some (status_body (Some ''not found'') None)))) = {} \<and>
   b_error (step polling_example
              (StatusReply (Some (status_body (Some ''not found'') None)))) =
     Some (StatusCheckError ''not found'') \<and>
   (\<forall>j es. list_all (\<lambda>e. \<not> starts_polling j e) es \<longrightarrow>
      status_requests j (run es (step polling_example
           (StatusReply (Some (status_body (Some ''not found'') None))))) =
      status_requests j (step polling_example
           (StatusReply (Some (status_body (Some ''not found'') None)))))"
    using p e v unfolding polling_example_def [symmetric] Let_def by simp
  with p e q show ?thesis by blast
qed

text \<open>
  Claim C3, as the code has it. In every state the page can reach with a status request
  pending, take a reply whose display update goes through (its \<^verbatim>\<open>progress\<close> is missing,
  falsy or a number, so that \<^verbatim>\<open>toFixed\<close> does not throw). With status \<^verbatim>\<open>completed\<close>
  and no non-empty \<^verbatim>\<open>error\<close> field it clears the timer and then requests the results
  of the current job, and a results reply without an \<^verbatim>\<open>error\<close> field wires the download
  and summary actions to it. With status \<^verbatim>\<open>failed\<close> it clears the timer and shows an
  error message without any request, as does a \<^verbatim>\<open>failed\<close> reply with an \<^verbatim>\<open>error\<close>
  field whatever its \<^verbatim>\<open>progress\<close>. After such a reply with either status no timer is
  set, and no status request for a job \<open>j\<close> goes out unless a later submission is
  answered with \<open>j\<close>.
\<close>

theorem terminal_status_stops_polling:
  "let s = run es0 batch_init in
   0 < pendingStatus s \<longrightarrow>
     (st_status r = Some ''completed'' \<and> \<not> truthy_field (st_error r) \<and>
      toFixed (or_zero (st_progress r)) \<noteq> None \<longrightarrow>
        (let s' = step s (StatusReply (Some r)) in
           timers s' = {} \<and>
           b_log s' = b_log s @ [ResultsReq (batchId s)] \<and>
           pendingResults s' = pendingResults s + 1 \<and>
           (\<not> truthy_field (rs_error d) \<longrightarrow>
              actions (step s' (ResultsReply (Some d))) = Some d))) \<and>
     (st_status r = Some ''failed'' \<and>
      (truthy_field (st_error r) \<or> toFixed (or_zero (st_progress r)) \<noteq> None) \<longrightarrow>
        (let s' = step s (StatusReply (Some r)) in
           timers s' = {} \<and> b_log s' = b_log s \<and>
           b_error s' = Some (if truthy_field (st_error r)
                              then StatusCheckError (the (st_error r))
                              else AnalysisFailedUnknown))) \<and>
     ((st_status r = Some ''completed'' \<or> st_status r = Some ''failed'') \<and>
      (truthy_field (st_error r) \<or> toFixed (or_zero (st_progress r)) \<noteq> None) \<longrightarrow>
        (let s' = step s (StatusReply (Some r)) in
           timers s' = {} \<and>
           (\<forall>j es. list_all (\<lambda>e. \<not> starts_polling j e) es \<longrightarrow>
                    status_requests j (run es s') = status_requests j s')))"
proof -
  define s where "s = run es0 batch_init"
  define s' where "s' = step s (StatusReply (Some r))"
  have ok: "timers_ok s" unfolding s_def by (rule reachable_timers_ok)
  have ok': "timers_ok s'" unfolding s'_def using ok by (rule step_timers_ok)
  have quiet: "timers s' = {} \<Longrightarrow>
      (\<forall>j es. list_all (\<lambda>e. \<not> starts_polling j e) es \<longrightarrow>
          status_requests j (run es s') = status_requests j s')"
    using quiet_after [OF ok'] by blast
  have c: "0 < pendingStatus s \<Longrightarrow> st_status r = Some ''completed'' \<Longrightarrow>
      \<not> truthy_field (st_error r) \<Longrightarrow> toFixed (or_zero (st_progress r)) \<noteq> None \<Longrightarrow>
      timers s' = {} \<and> b_log s' = b_log s @ [ResultsReq (batchId s)] \<and>
      pendingResults s' = pendingResults s + 1"
    unfolding s'_def using status_reply_completed [OF ok, of r] by auto
  have act: "0 < pendingResults s' \<Longrightarrow> \<not> truthy_field (rs_error d) \<Longrightarrow>
      actions (step s' (ResultsReply (Some d))) = Some d"
    by (simp add: results_reply_def Let_def)
  have f: "0 < pendingStatus s \<Longrightarrow> st_status r = Some ''failed'' \<Longrightarrow>
      truthy_field (st_error r) \<or> toFixed (or_zero (st_progress r)) \<noteq> None \<Longrightarrow>
      timers s' = {} \<and> b_log s' = b_log s \<and>
      b_error s' = Some (if truthy_field (st_error r)
                         then StatusCheckError (the (st_error r))
                         else AnalysisFailedUnknown)"
    unfolding s'_def
    using status_reply_failed [OF ok, of r] status_reply_error [OF ok, of r]
    by (cases "truthy_field (st_error r)") auto
  have t: "0 < pendingStatus s \<Longrightarrow>
      st_status r = Some ''completed'' \<or> st_status r = Some ''failed'' \<Longrightarrow>
      truthy_field (st_error r) \<or> toFixed (or_zero (st_progress r)) \<noteq> None \<Longrightarrow>
      timers s' = {}"
    unfolding s'_def using status_reply_terminal_timers [OF ok, of r] by blast
  have c': "0 < pendingStatus s \<Longrightarrow> st_status r = Some ''completed'' \<Longrightarrow>
      \<not> truthy_field (st_error r) \<Longrightarrow> toFixed (or_zero (st_progress r)) \<noteq> None \<Longrightarrow>
      \<not> truthy_field (rs_error d) \<Longrightarrow>
      actions (step s' (ResultsReply (Some d))) = Some d"
    using c act by simp
  from c c' f t quiet show ?thesis
    unfolding s_def [symmetric] Let_def s'_def [symmetric] by blast
qed

text \<open>
  Claim C3 says every \<^verbatim>\<open>completed\<close> reply is followed by the fetch of the results and
  the two actions. A \<^verbatim>\<open>completed\<close> reply that also carries an \<^verbatim>\<open>error\<close> field takes
  the error branch, which returns before the fetch; and a results reply with an
  \<^verbatim>\<open>error\<close> field wires no action.
\<close>

theorem completed_with_error_counterexample:
  "b_log (step polling_example
            (StatusReply (Some (status_body (Some ''boom'') (Some ''completed''))))) =
     [BatchAnalyze None, StatusReq ''b1''] \<and>
   pendingResults (step polling_example
            (StatusReply (Some (status_body (Some ''boom'') (Some ''completed''))))) = 0 \<and>
   actions (step (step polling_example
                    (StatusReply (Some (status_body None (Some ''completed'')))))
                 (ResultsReply (Some \<lparr>rs_error = Some ''gone'', rs_total = None,
                                       rs_results = []\<rparr>))) = None"
  by (simp add: polling_example_def run_def batch_init_def ok_reply_def status_body_def
        handler_defs status_reply_def updateStatusDisplay_def or_zero_def Let_def)

theorem terminal_status_stops_polling_witness:
  "0 < pendingStatus polling_example \<and>
   st_status (status_body None (Some ''completed'')) = Some ''completed'' \<and>
   \<not> truthy_field (st_error (status_body None (Some ''completed''))) \<and>
   toFixed (or_zero (st_progress (status_body None (Some ''completed'')))) \<noteq> None \<and>
   timers (step polling_example
             (StatusReply (Some (status_body None (Some ''completed''))))) = {} \<and>
   b_log (step polling_example
            (StatusReply (Some (status_body None (Some ''completed''))))) =
     [BatchAnalyze None, StatusReq ''b1'', ResultsReq (Some ''b1'')] \<and>
   st_status (status_body None (Some ''failed'')) = Some ''failed'' \<and>
   timers (step polling_example
             (StatusReply (Some (status_body None (Some ''failed''))))) = {} \<and>
   b_error (step polling_example
             (StatusReply (Some (status_body None (Some ''failed''))))) =
     Some AnalysisFailedUnknown \<and>
   list_all (\<lambda>e. \<not> starts_polling ''b1'' e) [Tick 1, Submit, Tick 1] \<and>
   status_requests ''b1''
     (run [Tick 1, Submit, Tick 1]
        (step polling_example (StatusReply (Some (status_body None (Some ''failed'')))))) =
   status_requests ''b1''
     (step polling_example (StatusReply (Some (status_body None (Some ''failed'')))))"
proof -
  have p: "0 < pendingStatus polling_example" by (simp add: polling_example_fields)
  have c: "st_status (status_body None (Some ''completed'')) = Some ''completed''"
    by (simp add: status_body_def)
  have e: "\<not> truthy_field (st_error (status_body None (Some ''completed'')))"
    by (simp add: status_body_def)
  have n: "toFixed (or_zero (st_progress (status_body None (Some ''completed'')))) \<noteq> None"
    by (simp add: status_body_def or_zero_def)
  have f: "st_status (status_body None (Some ''failed'')) = Some ''failed''"
    by (simp add: status_body_def)
  have e': "\<not> truthy_field (st_error (status_body None (Some ''failed'')))"
    by (simp add: status_body_def)
  have n': "toFixed (or_zero (st_progress (status_body None (Some ''failed'')))) \<noteq> None"
    by (simp add: status_body_def or_zero_def)
  have q: "list_all (\<lambda>e. \<not> starts_polling ''b1'' e) [Tick 1, Submit, Tick 1]" by simp
  from terminal_status_stops_polling
         [of "[Submit, SubmitReply (Some (ok_reply ''b1'')), Tick 1]"
             "status_body None (Some ''completed'')"]
  have compl: "timers (step polling_example
             (StatusReply (Some (status_body None (Some ''completed''))))) = {} \<and>
        b_log (step polling_example
            (StatusReply (Some (status_body None (Some ''completed''))))) =
          b_log polling_example @ [ResultsReq (batchId polling_example)]"
    using p c e n unfolding polling_example_def [symmetric] Let_def by simp
  from terminal_status_stops_polling
         [of "[Submit, SubmitReply (Some (ok_reply ''b1'')), Tick 1]"
             "status_body None (Some ''failed'')"]
  have failed: "timers (step polling_example
             (StatusReply (Some (status_body None (Some ''failed''))))) = {} \<and>
        b_error (step polling_example
             (StatusReply (Some (status_body None (Some ''failed''))))) =
          Some AnalysisFailedUnknown \<and>
        (\<forall>j es. list_all (\<lambda>e. \<not> starts_polling j e) es \<longrightarrow>
           status_requests j (run es (step polling_example
                (StatusReply (Some (status_body None (Some ''failed'')))))) =
           status_requests j (step polling_example
                (StatusReply (Some (status_body None (Some ''failed''))))))"
    using p f e' n' unfolding polling_example_def [symmetric] Let_def by simp
  from failed q have quiet: "status_requests ''b1''
     (run [Tick 1, Submit, Tick 1]
        (step polling_example (StatusReply (Some (status_body None (Some ''failed'')))))) =
   status_requests ''b1''
     (step polling_example (StatusReply (Some (status_body None (Some ''failed'')))))"
    by blast
  from p c e n f q compl failed quiet show ?thesis by (simp add: polling_example_fields)
qed

lemma step_files_ok: "files_ok s \<Longrightarrow> files_ok (step s e)"
proof (cases e)
  case (StatusReply x)
  assume "files_ok s"
  with StatusReply show ?thesis by (simp add: files_ok_def status_reply_frame(4,7))
qed (auto simp: files_ok_def acceptable_def handler_defs Let_def split: option.splits)

lemma run_files_ok: "files_ok s \<Longrightarrow> files_ok (run es s)"
  unfolding run_def by (induction es arbitrary: s) (simp_all add: step_files_ok)

lemma files_ok_init: "files_ok batch_init"
  by (simp add: files_ok_def batch_init_def)

text \<open>
  Claim C7. A selected file of more than 1,048,576 bytes, or one that neither has the type
  \<^verbatim>\<open>text/plain\<close> nor a name ending in \<^verbatim>\<open>.txt\<close>, is refused by the change handler:
  the error is shown, the input is emptied, and no request is sent. A file of exactly
  1,048,576 bytes with the right type or name stays in the input and raises no error. And
  in every run of the page, each file a submission sends has passed both checks.
\<close>

theorem file_checked_before_any_request:
  "(1048576 < f_size f \<or> (f_type f \<noteq> ''text/plain'' \<and> \<not> endsWith (f_name f) ''.txt'') \<longrightarrow>
      (let s' = step s (FileSelected (Some f)) in
         fileInput s' = None \<and>
         b_error s' = Some (if 1048576 < f_size f then FileTooLarge else NotTextFile) \<and>
         b_log s' = b_log s \<and> pendingSubmit s' = pendingSubmit s)) \<and>
   (f_size f = 1048576 \<and> (f_type f = ''text/plain'' \<or> endsWith (f_name f) ''.txt'') \<longrightarrow>
      (let s' = step s (FileSelected (Some f)) in
         fileInput s' = Some f \<and> b_error s' = b_error s \<and> b_log s' = b_log s)) \<and>
   (\<forall>es g. BatchAnalyze (Some g) \<in> set (b_log (run es batch_init)) \<longrightarrow>
      f_size g \<le> 1048576 \<and> (f_type g = ''text/plain'' \<or> endsWith (f_name g) ''.txt''))"
proof -
  have a: "1048576 < f_size f \<or> (f_type f \<noteq> ''text/plain'' \<and> \<not> endsWith (f_name f) ''.txt'') \<longrightarrow>
      (let s' = step s (FileSelected (Some f)) in
         fileInput s' = None \<and>
         b_error s' = Some (if 1048576 < f_size f then FileTooLarge else NotTextFile) \<and>
         b_log s' = b_log s \<and> pendingSubmit s' = pendingSubmit s)"
    by (simp add: fileInput_change_def showError_def Let_def)
  have b: "f_size f = 1048576 \<and> (f_type f = ''text/plain'' \<or> endsWith (f_name f) ''.txt'') \<longrightarrow>
      (let s' = step s (FileSelected (Some f)) in
         fileInput s' = Some f \<and> b_error s' = b_error s \<and> b_log s' = b_log s)"
    by (simp add: fileInput_change_def showError_def Let_def)
  have c: "\<forall>es g. BatchAnalyze (Some g) \<in> set (b_log (run es batch_init)) \<longrightarrow>
      f_size g \<le> 1048576 \<and> (f_type g = ''text/plain'' \<or> endsWith (f_name g) ''.txt'')"
    using run_files_ok [OF files_ok_init] by (simp add: files_ok_def acceptable_def)
  from a b c show ?thesis by blast
qed


theorem file_checked_before_any_request_witness:
  "1048576 < f_size \<lparr>f_name = ''codes.txt'', f_size = 1048577, f_type = ''text/plain''\<rparr> \<and>
   fileInput (step batch_init (FileSelected
       (Some \<lparr>f_name = ''codes.txt'', f_size = 1048577, f_type = ''text/plain''\<rparr>))) = None \<and>
   b_error (step batch_init (FileSelected
       (Some \<lparr>f_name = ''codes.txt'', f_size = 1048577, f_type = ''text/plain''\<rparr>))) =
     Some FileTooLarge \<and>
   b_log (step batch_init (FileSelected
       (Some \<lparr>f_name = ''codes.txt'', f_size = 1048577, f_type = ''text/plain''\<rparr>))) = [] \<and>
   endsWith ''codes.txt'' ''.txt'' \<and>
   fileInput (step batch_init (FileSelected
       (Some \<lparr>f_name = ''codes.txt'', f_size = 1048576, f_type = []\<rparr>))) =
     Some \<lparr>f_name = ''codes.txt'', f_size = 1048576, f_type = []\<rparr> \<and>
   b_log (run [FileSelected
                 (Some \<lparr>f_name = ''codes.txt'', f_size = 1048576, f_type = []\<rparr>), Submit]
            batch_init) =
     [BatchAnalyze (Some \<lparr>f_name = ''codes.txt'', f_size = 1048576, f_type = []\<rparr>)]"
proof -
  have big: "fileInput (step batch_init (FileSelected
       (Some \<lparr>f_name = ''codes.txt'', f_size = 1048577, f_type = ''text/plain''\<rparr>))) = None \<and>
   b_error (step batch_init (FileSelected
       (Some \<lparr>f_name = ''codes.txt'', f_size = 1048577, f_type = ''text/plain''\<rparr>))) =
     Some FileTooLarge \<and>
   b_log (step batch_init (FileSelected
       (Some \<lparr>f_name = ''codes.txt'', f_size = 1048577, f_type = ''text/plain''\<rparr>))) = []"
    using file_checked_before_any_request
          [of "\<lparr>f_name = ''codes.txt'', f_size = 1048577, f_type = ''text/plain''\<rparr>" batch_init]
    by (simp add: Let_def batch_init_def)
  have e: "endsWith ''codes.txt'' ''.txt''" by (simp add: endsWith_def)
  have edge: "fileInput (step batch_init (FileSelected
       (Some \<lparr>f_name = ''codes.txt'', f_size = 1048576, f_type = []\<rparr>))) =
     Some \<lparr>f_name = ''codes.txt'', f_size = 1048576, f_type = []\<rparr>"
    using file_checked_before_any_request
          [of "\<lparr>f_name = ''codes.txt'', f_size = 1048576, f_type = []\<rparr>" batch_init] e
    by (simp add: Let_def)
  have sent: "b_log (run [FileSelected
                 (Some \<lparr>f_name = ''codes.txt'', f_size = 1048576, f_type = []\<rparr>), Submit]
            batch_init) =
     [BatchAnalyze (Some \<lparr>f_name = ''codes.txt'', f_size = 1048576, f_type = []\<rparr>)]"
    using edge by (simp add: run_def form_submit_def setLoading_def hideError_def
        fileInput_change_def e batch_init_def)
  from big e edge sent show ?thesis by simp
qed

lemma tick_without_batchId: "\<not> truthy_field (batchId s) \<Longrightarrow> step s (Tick t) = s"
  by (simp add: checkBatchStatus_def)

lemma form_reset_fields:
  "timers_ok s \<Longrightarrow> timers (step s Reset) = {} \<and> batchId (step s Reset) = None"
  by (auto simp: timers_ok_def form_reset_def hideError_def interval_set_def clearInterval_def
        Let_def split: option.splits)

lemma beforeunload_timers: "timers_ok s \<Longrightarrow> timers (step s Unload) = {}"
  by (auto simp: timers_ok_def beforeunload_def interval_set_def clearInterval_def
        split: option.splits)

lemma timers_ok_card: "timers_ok s \<Longrightarrow> finite (timers s) \<and> card (timers s) \<le> 1"
proof -
  assume "timers_ok s"
  then have sub: "timers s \<subseteq> set_option (statusInterval s)" by (simp add: timers_ok_def)
  have fin: "finite (set_option (statusInterval s))" by (cases "statusInterval s") simp_all
  have "card (set_option (statusInterval s)) \<le> 1" by (cases "statusInterval s") simp_all
  with sub fin show ?thesis
    using card_mono [OF fin sub] finite_subset [OF sub fin] by simp
qed

text \<open>
  Claim C10. In every state the page can reach at most one timer is set, and it is the one
  \<open>statusInterval\<close> holds; \<^verbatim>\<open>startStatusCheck\<close> leaves exactly the new timer set;
  a form reset and a page unload leave none, as does every status reply that takes one
  of the two exits of \<^verbatim>\<open>checkBatchStatus\<close>: the reply carries an error, or it carries
  a terminal status and the display update before the status test goes through; after a
  reset \<open>batchId\<close> is null and a tick of any timer changes nothing, so sends nothing.
\<close>

theorem at_most_one_polling_timer:
  "let s = run es batch_init in
     finite (timers s) \<and> card (timers s) \<le> 1 \<and>
     timers s \<subseteq> set_option (statusInterval s) \<and>
     nextTimer s \<notin> timers s \<and>
     timers (startStatusCheck s) = {nextTimer s} \<and>
     timers (step s Reset) = {} \<and> batchId (step s Reset) = None \<and>
     (\<forall>t. step (step s Reset) (Tick t) = step s Reset) \<and>
     timers (step s Unload) = {} \<and>
     (\<forall>r. 0 < pendingStatus s \<and>
          (truthy_field (st_error r) \<or>
           ((st_status r = Some ''completed'' \<or> st_status r = Some ''failed'') \<and>
            toFixed (or_zero (st_progress r)) \<noteq> None)) \<longrightarrow>
          timers (step s (StatusReply (Some r))) = {})"
proof -
  define s where "s = run es batch_init"
  have ok: "timers_ok s" unfolding s_def by (rule reachable_timers_ok)
  have a: "finite (timers s) \<and> card (timers s) \<le> 1" using ok by (rule timers_ok_card)
  have b: "timers s \<subseteq> set_option (statusInterval s) \<and> nextTimer s \<notin> timers s"
    using ok by (auto simp: timers_ok_def)
  have c: "timers (startStatusCheck s) = {nextTimer s}"
    using startStatusCheck_timers [OF ok] by simp
  have d: "timers (step s Reset) = {} \<and> batchId (step s Reset) = None"
    using ok by (rule form_reset_fields)
  have e: "\<forall>t. step (step s Reset) (Tick t) = step s Reset"
    using d by (simp add: tick_without_batchId)
  have f: "timers (step s Unload) = {}" using ok by (rule beforeunload_timers)
  have g: "\<forall>r. 0 < pendingStatus s \<and>
          (truthy_field (st_error r) \<or>
           ((st_status r = Some ''completed'' \<or> st_status r = Some ''failed'') \<and>
            toFixed (or_zero (st_progress r)) \<noteq> None)) \<longrightarrow>
          timers (step s (StatusReply (Some r))) = {}"
  proof (intro allI impI)
    fix r :: status_json
    assume h: "0 < pendingStatus s \<and>
          (truthy_field (st_error r) \<or>
           ((st_status r = Some ''completed'' \<or> st_status r = Some ''failed'') \<and>
            toFixed (or_zero (st_progress r)) \<noteq> None))"
    then have p: "0 < pendingStatus s" by simp
    from h show "timers (step s (StatusReply (Some r))) = {}"
      by (intro status_reply_terminal_timers [OF ok p]) simp
  qed
  from a b c d e f g show ?thesis unfolding s_def [symmetric] Let_def by blast
qed

theorem at_most_one_polling_timer_witness:
  "timers (run [Submit, SubmitReply (Some (ok_reply ''b1'')), Submit,
                SubmitReply (Some (ok_reply ''b2'')), Tick 2] batch_init) = {2} \<and>
   card (timers (run [Submit, SubmitReply (Some (ok_reply ''b1'')), Submit,
                      SubmitReply (Some (ok_reply ''b2'')), Tick 2] batch_init)) \<le> 1 \<and>
   0 < pendingStatus (run [Submit, SubmitReply (Some (ok_reply ''b1'')), Submit,
                      SubmitReply (Some (ok_reply ''b2'')), Tick 2] batch_init) \<and>
   st_status (status_body None (Some ''failed'')) = Some ''failed'' \<and>
   toFixed (or_zero (st_progress (status_body None (Some ''failed'')))) \<noteq> None \<and>
   timers (step (run [Submit, SubmitReply (Some (ok_reply ''b1'')), Submit,
                      SubmitReply (Some (ok_reply ''b2'')), Tick 2] batch_init)
             (StatusReply (Some (status_body None (Some ''failed''))))) = {} \<and>
   timers (step (run [Submit, SubmitReply (Some (ok_reply ''b1'')), Submit,
                      SubmitReply (Some (ok_reply ''b2'')), Tick 2] batch_init) Reset) = {}"
proof -
  define s where "s = run [Submit, SubmitReply (Some (ok_reply ''b1'')), Submit,
                SubmitReply (Some (ok_reply ''b2'')), Tick 2] batch_init"
  have v: "timers s = {2} \<and> 0 < pendingStatus s"
    by (simp add: s_def run_def batch_init_def ok_reply_def handler_defs)
  have f: "st_status (status_body None (Some ''failed'')) = Some ''failed''"
    by (simp add: status_body_def)
  have n: "toFixed (or_zero (st_progress (status_body None (Some ''failed'')))) \<noteq> None"
    by (simp add: status_body_def or_zero_def)
  note inst = at_most_one_polling_timer
         [of "[Submit, SubmitReply (Some (ok_reply ''b1'')), Submit,
               SubmitReply (Some (ok_reply ''b2'')), Tick 2]",
          unfolded Let_def s_def [symmetric]]
  from inst have c: "card (timers s) \<le> 1" by simp
  from inst have r: "timers (step s Reset) = {}" by simp
  from inst have "\<forall>r. 0 < pendingStatus s \<and>
          (truthy_field (st_error r) \<or>
           ((st_status r = Some ''completed'' \<or> st_status r = Some ''failed'') \<and>
            toFixed (or_zero (st_progress r)) \<noteq> None)) \<longrightarrow>
          timers (step s (StatusReply (Some r))) = {}" by simp
  with v f n
  have x: "timers (step s (StatusReply (Some (status_body None (Some ''failed''))))) = {}"
    by blast
  from v f n c r x show ?thesis unfolding s_def [symmetric] by simp
qed

section \<open>Properties of the job store and the runner\<close>

lemma set_status_forward:
  "set_status j x e = Inr j' \<Longrightarrow> forward (j_status j) x \<and> j_status j' = x"
  by (auto simp: set_status_def split: if_splits)

lemma forward_not_terminal: "forward a b \<Longrightarrow> \<not> terminal a"
  by (cases a; cases b) (simp_all add: terminal_def)

lemma forward_from_waiting: "forward Waiting b \<Longrightarrow> b = Running"
  by (cases b) simp_all

text \<open>One call changes the status of a stored job by a forward transition or not at all.\<close>

lemma store_step_job:
  "st jid = Some j \<Longrightarrow>
   \<exists>j'. store_step st c jid = Some j' \<and>
        (j_status j' = j_status j \<or> forward (j_status j) (j_status j'))"
proof (cases c)
  case (OpCreate k n)
  assume "st jid = Some j"
  then show ?thesis using OpCreate
    by (auto simp: store_step_def Create_def)
next
  case (OpUpdateProgress k out)
  assume "st jid = Some j"
  then show ?thesis using OpUpdateProgress
    by (auto simp: store_step_def UpdateProgress_def update_progress_def
          split: option.splits outcome.splits)
next
  case (OpSetStatus k x e)
  assume "st jid = Some j"
  then show ?thesis using OpSetStatus
    by (auto simp: store_step_def SetStatus_def set_status_def
          split: option.splits sum.splits if_splits)
qed

lemma store_run_terminal:
  "st jid = Some j \<Longrightarrow> terminal (j_status j) \<Longrightarrow>
   \<exists>j'. store_run cs st jid = Some j' \<and> j_status j' = j_status j"
proof (induction cs arbitrary: st j)
  case Nil
  then show ?case by (simp add: store_run_def)
next
  case (Cons c cs)
  from store_step_job [of st jid j c] Cons.prems(1)
  obtain j1 where j1: "store_step st c jid = Some j1"
    and s: "j_status j1 = j_status j \<or> forward (j_status j) (j_status j1)" by blast
  from s Cons.prems(2) have eq: "j_status j1 = j_status j"
    using forward_not_terminal by blast
  with Cons.prems(2) have t: "terminal (j_status j1)" by simp
  from Cons.IH [of "store_step st c" j1] j1 t eq show ?case by (simp add: store_run_def)
qed

text \<open>
  Claim C5. SetStatus makes exactly the transitions waiting to running, running to
  completed and running to failed, and rejects every other one as an
  InvalidStateTransition fault, leaving the store as it was. Whatever call is made on the
  store, the status of a stored job stays or moves along one of these transitions, so a
  waiting job goes nowhere but to running; and through any sequence of calls a job in a
  terminal state keeps its status.
\<close>

theorem status_moves_forward_only:
  "(set_status j x e = Inl InvalidStateTransition \<longleftrightarrow> \<not> forward (j_status j) x) \<and>
   (forward (j_status j) x \<longrightarrow>
      set_status j x e = Inr (j\<lparr>j_status := x,
                                 j_error := (if x = Failed then e else j_error j)\<rparr>)) \<and>
   (forward a b \<longleftrightarrow>
      (a = Waiting \<and> b = Running) \<or> (a = Running \<and> (b = Completed \<or> b = Failed))) \<and>
   (st jid = Some j \<longrightarrow>
      (SetStatus st jid x e = Inl InvalidStateTransition \<longleftrightarrow> \<not> forward (j_status j) x) \<and>
      (\<not> forward (j_status j) x \<longrightarrow> store_step st (OpSetStatus jid x e) = st) \<and>
      (\<exists>j'. store_step st c jid = Some j' \<and>
            (j_status j' = j_status j \<or> forward (j_status j) (j_status j'))) \<and>
      (terminal (j_status j) \<longrightarrow>
         (\<exists>j'. store_run cs st jid = Some j' \<and> j_status j' = j_status j)))"
proof -
  have a: "set_status j x e = Inl InvalidStateTransition \<longleftrightarrow> \<not> forward (j_status j) x"
    by (simp add: set_status_def)
  have b: "forward (j_status j) x \<longrightarrow>
      set_status j x e = Inr (j\<lparr>j_status := x,
                                 j_error := (if x = Failed then e else j_error j)\<rparr>)"
    by (simp add: set_status_def)
  have c: "forward a b \<longleftrightarrow>
      (a = Waiting \<and> b = Running) \<or> (a = Running \<and> (b = Completed \<or> b = Failed))"
    by (cases a; cases b) simp_all
  have d: "st jid = Some j \<Longrightarrow>
      (SetStatus st jid x e = Inl InvalidStateTransition \<longleftrightarrow> \<not> forward (j_status j) x)"
    by (simp add: SetStatus_def set_status_def)
  have e: "st jid = Some j \<Longrightarrow> \<not> forward (j_status j) x \<Longrightarrow>
      store_step st (OpSetStatus jid x e) = st"
    by (simp add: store_step_def SetStatus_def set_status_def)
  from a b c d e store_step_job [of st jid j c] store_run_terminal [of st jid j cs]
  show ?thesis by blast
qed

theorem status_moves_forward_only_witness:
  "\<not> forward (j_status (new_job two_codes ''day'' 0)) Waiting \<and>
   set_status (new_job two_codes ''day'' 0) Waiting None = Inl InvalidStateTransition \<and>
   forward (j_status (new_job two_codes ''day'' 0)) Completed \<and>
   set_status (new_job two_codes ''day'' 0) Completed None =
     Inr ((new_job two_codes ''day'' 0)\<lparr>j_status := Completed\<rparr>) \<and>
   [''j1'' \<mapsto> new_job two_codes ''day'' 0] ''j1'' = Some (new_job two_codes ''day'' 0) \<and>
   SetStatus [''j1'' \<mapsto> new_job two_codes ''day'' 0] ''j1'' Waiting None =
     Inl InvalidStateTransition \<and>
   store_step [''j1'' \<mapsto> new_job two_codes ''day'' 0] (OpSetStatus ''j1'' Waiting None) =
     [''j1'' \<mapsto> new_job two_codes ''day'' 0]"
proof -
  have a: "j_status (new_job two_codes ''day'' 0) = Running"
    and b: "j_error (new_job two_codes ''day'' 0) = None"
    by (simp_all add: new_job_def)
  have g: "[''j1'' \<mapsto> new_job two_codes ''day'' 0] ''j1'' = Some (new_job two_codes ''day'' 0)"
    by simp
  from status_moves_forward_only
         [of "new_job two_codes ''day'' 0" Waiting None _ _
             "[''j1'' \<mapsto> new_job two_codes ''day'' 0]" "''j1''"]
       status_moves_forward_only [of "new_job two_codes ''day'' 0" Completed None] a b g
  show ?thesis by simp
qed

lemma update_progress_fields:
  "j_status (update_progress j out) = j_status j"
  "j_total (update_progress j out) = j_total j"
  "j_results (update_progress j out) = j_results j @ [out]"
  "processed (update_progress j out) = processed j + 1"
  by (simp_all add: update_progress_def processed_def split: outcome.splits)

lemma update_progress_counts:
  "j_failed_count (update_progress j (analyse_item a c)) =
     j_failed_count j + (if isl (a c) then 1 else 0)"
  "j_completed_count (update_progress j (analyse_item a c)) =
     j_completed_count j + (if isl (a c) then 0 else 1)"
  by (simp_all add: update_progress_def analyse_item_def split: sum.splits)

lemma job_trace_length: "length (job_trace a j cs) = length cs"
  by (induction cs arbitrary: j) (simp_all add: Let_def)

lemma upt_shift: "[m..<m + Suc k] = m # [Suc m..<Suc m + k]"
  by (simp add: upt_rec)

lemma job_trace_processed:
  "map processed (job_trace a j cs) = [processed j + 1 ..< processed j + 1 + length cs]"
proof (induction cs arbitrary: j)
  case Nil
  then show ?case by simp
next
  case (Cons c cs)
  have "map processed (job_trace a j (c # cs)) =
        (processed j + 1) # [processed j + 2 ..< processed j + 2 + length cs]"
    by (simp add: Let_def Cons.IH update_progress_fields)
  also have "\<dots> = [processed j + 1 ..< processed j + 1 + length (c # cs)]"
    using upt_shift [of "processed j + 1" "length cs"] by simp
  finally show ?case .
qed

lemma job_trace_frame:
  "x \<in> set (job_trace a j cs) \<Longrightarrow> j_status x = j_status j \<and> j_total x = j_total j"
  by (induction cs arbitrary: j) (auto simp: Let_def update_progress_fields)

lemma job_trace_last_Cons:
  "last (j # job_trace a j (c # cs)) =
   last (update_progress j (analyse_item a c) #
         job_trace a (update_progress j (analyse_item a c)) cs)"
  by (simp add: Let_def)

lemma failing_Cons: "failing a (c # cs) = (if isl (a c) then 1 else 0) + failing a cs"
  by (simp add: failing_def)

lemma failing_le: "failing a cs \<le> length cs"
  by (simp add: failing_def)

lemma job_trace_last:
  "j_results (last (j # job_trace a j cs)) = j_results j @ map (analyse_item a) cs \<and>
   j_failed_count (last (j # job_trace a j cs)) = j_failed_count j + failing a cs \<and>
   j_completed_count (last (j # job_trace a j cs)) =
     j_completed_count j + (length cs - failing a cs) \<and>
   j_status (last (j # job_trace a j cs)) = j_status j \<and>
   j_total (last (j # job_trace a j cs)) = j_total j \<and>
   processed (last (j # job_trace a j cs)) = processed j + length cs"
proof (induction cs arbitrary: j)
  case Nil
  then show ?case by (simp add: failing_def)
next
  case (Cons c cs)
  note ih = Cons.IH [of "update_progress j (analyse_item a c)"]
  have le: "failing a cs \<le> length cs" by (rule failing_le)
  show ?case
    unfolding job_trace_last_Cons
    using ih le
    by (simp add: update_progress_fields update_progress_counts failing_Cons)
qed

lemma finish_running:
  "j_status j = Running \<Longrightarrow>
   finish j r = j\<lparr>j_status := (case r of None \<Rightarrow> Completed | Some x \<Rightarrow> Failed),
                  j_error := (case r of None \<Rightarrow> j_error j | Some x \<Rightarrow> r)\<rparr>"
  by (cases r) (simp_all add: finish_def set_status_def)



lemma new_job_fields:
  "j_status (new_job items chart now) = Running"
  "j_total (new_job items chart now) = length items"
  "j_results (new_job items chart now) = []"
  "j_failed_count (new_job items chart now) = 0"
  "j_completed_count (new_job items chart now) = 0"
  "j_error (new_job items chart now) = None"
  "processed (new_job items chart now) = 0"
  by (simp_all add: new_job_def processed_def)

lemma take_out_mset:
  "i < length xs \<Longrightarrow> mset (xs ! i # take i xs @ drop (Suc i) xs) = mset xs"
proof -
  assume "i < length xs"
  then have "xs = take i xs @ xs ! i # drop (Suc i) xs" by (rule id_take_nth_drop)
  then have "mset xs = mset (take i xs @ xs ! i # drop (Suc i) xs)" by simp
  then show ?thesis by simp
qed

lemma next_pick_less: "0 < n \<Longrightarrow> next_pick sched n < n"
  by (simp add: next_pick_def split: list.splits)

lemma finish_order_mset: "mset (finish_order sched pending) = mset pending"
proof (induction sched pending rule: finish_order.induct)
  case (1 sched pending)
  show ?case
  proof (cases "pending = []")
    case True
    then show ?thesis by (subst finish_order.simps) simp
  next
    case False
    define i where "i = next_pick sched (length pending)"
    have less: "i < length pending" using False by (simp add: i_def next_pick_less)
    have ih: "mset (finish_order (tl sched) (take i pending @ drop (Suc i) pending)) =
              mset (take i pending @ drop (Suc i) pending)"
      using "1.IH" [OF False i_def] .
    have "finish_order sched pending =
          pending ! i # finish_order (tl sched) (take i pending @ drop (Suc i) pending)"
      using False by (subst finish_order.simps) (simp add: i_def Let_def)
    then have "mset (finish_order sched pending) =
          mset (pending ! i # take i pending @ drop (Suc i) pending)"
      using ih by simp
    with take_out_mset [OF less] show ?thesis by simp
  qed
qed

lemma finish_order_length: "length (finish_order sched pending) = length pending"
  using finish_order_mset [of sched pending] by (metis size_mset)

lemma finish_order_set: "set (finish_order sched pending) = set pending"
  using finish_order_mset [of sched pending] by (metis set_mset_mset)

lemma failing_finish_order: "failing a (finish_order sched items) = failing a items"
proof -
  have "failing a (finish_order sched items) =
        size (filter_mset (\<lambda>c. isl (a c)) (mset (finish_order sched items)))"
    by (simp add: failing_def flip: mset_filter)
  also have "\<dots> = size (filter_mset (\<lambda>c. isl (a c)) (mset items))"
    by (simp add: finish_order_mset)
  also have "\<dots> = failing a items" by (simp add: failing_def flip: mset_filter)
  finally show ?thesis .
qed

lemma job_trace_error:
  "j_error j = None \<Longrightarrow> j_error (last (j # job_trace a j cs)) = None"
proof (induction cs arbitrary: j)
  case Nil
  then show ?case by simp
next
  case (Cons c cs)
  have "j_error (update_progress j (analyse_item a c)) = None"
    using Cons.prems by (simp add: update_progress_def split: outcome.splits)
  from Cons.IH [OF this] show ?case unfolding job_trace_last_Cons .
qed

lemma job_trace_nonempty: "cs \<noteq> [] \<Longrightarrow> job_trace a j cs \<noteq> []"
  by (cases cs) (simp_all add: Let_def)

lemma last_job_trace: "cs \<noteq> [] \<Longrightarrow> last (j # job_trace a j cs) = last (job_trace a j cs)"
  using job_trace_nonempty [of cs a j] by simp

lemma mark_not_processed_fields:
  "processed (mark_not_processed j cs) = processed j + length cs \<and>
   j_total (mark_not_processed j cs) = j_total j \<and>
   j_status (mark_not_processed j cs) = j_status j"
  unfolding mark_not_processed_def
  by (induction cs arbitrary: j) (simp_all add: update_progress_fields)


lemma batch_states_completed:
  assumes "items \<noteq> []" and "striking items job_fault = None"
  shows "batch_states a items sched chart now job_fault =
     Inr (new_job items chart now #
          butlast (job_trace a (new_job items chart now) (finish_order sched items)) @
          [finish (last (job_trace a (new_job items chart now) (finish_order sched items)))
             None])"
  using assms by (simp add: batch_states_def Let_def)

lemma batch_states_faulted:
  assumes "items \<noteq> []" and "striking items job_fault = Some (k, reason)"
  shows "batch_states a items sched chart now job_fault =
     Inr (new_job items chart now #
          job_trace a (new_job items chart now) (take k (finish_order sched items)) @
          [finish (mark_not_processed
                     (last (new_job items chart now #
                            job_trace a (new_job items chart now)
                              (take k (finish_order sched items))))
                     (drop k (finish_order sched items)))
             (Some reason)])"
  using assms by (simp add: batch_states_def Let_def)

lemma striking_None_None: "striking items None = None"
  by (simp add: striking_def)

text \<open>
  Claim C6. A batch of \<open>N\<close> items of which exactly \<open>K\<close> fail in analysis, its
  items finishing in whatever order the schedule gives and no job-level fault striking,
  ends with status completed, \<open>completed_count = N - K\<close> and
  \<open>failed_count = K\<close>; its results are the outcomes of the items, one each: an error
  entry for every failing item, an analysis payload for every other.
\<close>

theorem item_failures_are_isolated:
  assumes "items \<noteq> []" and "length items = N" and "failing analyze items = K"
  shows "\<exists>js. batch_states analyze items sched chart now None = Inr js \<and>
     j_status (last js) = Completed \<and> j_error (last js) = None \<and>
     j_total (last js) = N \<and>
     j_completed_count (last js) = N - K \<and>
     j_failed_count (last js) = K \<and>
     mset (j_results (last js)) = mset (map (analyse_item analyze) items) \<and>
     (\<forall>c \<in> set items.
        case analyze c of
          Inl e \<Rightarrow> ItemError c e \<in> set (j_results (last js))
        | Inr p \<Rightarrow> Analysis c p \<in> set (j_results (last js)))"
proof -
  define j0 where "j0 = new_job items chart now"
  define order where "order = finish_order sched items"
  define mid where "mid = job_trace analyze j0 order"
  define jn where "jn = last mid"
  define js where "js = j0 # butlast mid @ [finish jn None]"
  have eq: "batch_states analyze items sched chart now None = Inr js"
    using batch_states_completed [OF assms(1) striking_None_None, of analyze sched chart now]
    by (simp add: js_def jn_def mid_def order_def j0_def)
  have len: "length order = N" using assms(2) by (simp add: order_def finish_order_length)
  have ne: "order \<noteq> []" using len assms(1,2) by auto
  have fl: "failing analyze order = K"
    using assms(3) by (simp add: order_def failing_finish_order)
  have jn': "jn = last (j0 # job_trace analyze j0 order)"
    using last_job_trace [OF ne, of j0 analyze] by (simp add: jn_def mid_def)
  have n: "j_results jn = map (analyse_item analyze) order \<and> j_failed_count jn = K \<and>
           j_completed_count jn = N - K \<and> j_status jn = Running \<and> j_total jn = N"
    using job_trace_last [of j0 analyze order] len fl assms(2)
    by (simp add: jn' j0_def new_job_fields)
  have err: "j_error jn = None"
    using job_trace_error [of j0 analyze order] by (simp add: jn' j0_def new_job_fields)
  have l: "last js = finish jn None" by (simp add: js_def)
  have f: "finish jn None = jn\<lparr>j_status := Completed\<rparr>"
    using n err finish_running [of jn None] by simp
  have res: "j_results (last js) = map (analyse_item analyze) order"
    using n by (simp add: l f)
  have "mset order = mset items" by (simp add: order_def finish_order_mset)
  then have m: "mset (j_results (last js)) = mset (map (analyse_item analyze) items)"
    using res by (metis mset_map)
  have s: "set order = set items" by (simp add: order_def finish_order_set)
  have each: "\<forall>c \<in> set items.
        case analyze c of
          Inl e \<Rightarrow> ItemError c e \<in> set (j_results (last js))
        | Inr p \<Rightarrow> Analysis c p \<in> set (j_results (last js))"
  proof
    fix c assume "c \<in> set items"
    then have "analyse_item analyze c \<in> set (j_results (last js))"
      using s by (simp add: res)
    then show "case analyze c of
          Inl e \<Rightarrow> ItemError c e \<in> set (j_results (last js))
        | Inr p \<Rightarrow> Analysis c p \<in> set (j_results (last js))"
      by (simp add: analyse_item_def split: sum.splits)
  qed
  have "j_status (last js) = Completed \<and> j_error (last js) = None \<and>
     j_total (last js) = N \<and> j_completed_count (last js) = N - K \<and>
     j_failed_count (last js) = K"
    using n err by (simp add: l f)
  with eq m each show ?thesis by blast
qed

theorem item_failures_are_isolated_witness:
  "two_codes \<noteq> [] \<and> length two_codes = 2 \<and> failing one_bad two_codes = 1 \<and>
   (\<exists>js. batch_states one_bad two_codes [1] ''day'' 0 None = Inr js \<and>
         j_status (last js) = Completed \<and> j_completed_count (last js) = 1 \<and>
         j_failed_count (last js) = 1 \<and>
         ItemError ''000660'' ''no data'' \<in> set (j_results (last js)) \<and>
         Analysis ''005930'' ''payload'' \<in> set (j_results (last js)))"
proof -
  have h1: "two_codes \<noteq> []" by (simp add: two_codes_def)
  have h3: "length two_codes = 2" by (simp add: two_codes_def)
  have h4: "failing one_bad two_codes = 1" by (simp add: failing_def two_codes_def one_bad_def)
  have m: "''000660'' \<in> set two_codes \<and> ''005930'' \<in> set two_codes"
    by (simp add: two_codes_def)
  have a: "one_bad ''000660'' = Inl ''no data'' \<and> one_bad ''005930'' = Inr ''payload''"
    by (simp add: one_bad_def)
  from item_failures_are_isolated [OF h1 h3 h4, of "[1]" "''day''" 0]
  obtain js where js: "batch_states one_bad two_codes [1] ''day'' 0 None = Inr js"
    and st: "j_status (last js) = Completed" "j_completed_count (last js) = 2 - 1"
      "j_failed_count (last js) = 1"
    and each: "\<forall>c \<in> set two_codes.
        case one_bad c of
          Inl e \<Rightarrow> ItemError c e \<in> set (j_results (last js))
        | Inr p \<Rightarrow> Analysis c p \<in> set (j_results (last js))"
    by blast
  from each m a have "ItemError ''000660'' ''no data'' \<in> set (j_results (last js)) \<and>
         Analysis ''005930'' ''payload'' \<in> set (j_results (last js))"
    by (metis sum.case)
  with js st h1 h3 h4 show ?thesis by auto
qed

lemma finish_order_example:
  "finish_order [Suc 0] [''005930'', ''000660''] = [''000660'', ''005930'']"
  by (simp add: finish_order.simps next_pick_def)


lemma finish_fields:
  "j_status j = Running \<Longrightarrow>
   processed (finish j r) = processed j \<and> j_total (finish j r) = j_total j \<and>
   (j_status (finish j r) = Completed \<longleftrightarrow> r = None) \<and>
   (j_status (finish j r) = Failed \<longleftrightarrow> r \<noteq> None)"
  by (cases r) (simp_all add: finish_running processed_def)

lemma striking_cases:
  "striking items job_fault = None \<or>
   (\<exists>k reason. striking items job_fault = Some (k, reason) \<and> k < length items)"
  by (auto simp: striking_def split: option.splits)

text \<open>The states of a job that runs to completion.\<close>

lemma completed_run:
  fixes a :: "string \<Rightarrow> string + string"
  assumes "cs \<noteq> []" and "j_status j0 = Running" and "processed j0 = 0"
    and "j_total j0 = length cs"
  defines "js \<equiv> j0 # butlast (job_trace a j0 cs) @ [finish (last (job_trace a j0 cs)) None]"
  shows "sorted (map processed js)"
    and "\<forall>j \<in> set js. j_total j = length cs \<and> processed j \<le> j_total j \<and>
           (processed j = j_total j \<longleftrightarrow> j_status j = Completed \<or> j_status j = Failed)"
    and "j_status (last js) = Completed"
proof -
  define mid where "mid = job_trace a j0 cs"
  define n where "n = length cs"
  have n0: "0 < n" using assms(1) by (simp add: n_def)
  have ne: "mid \<noteq> []" using assms(1) by (simp add: mid_def job_trace_nonempty)
  have midp: "map processed mid = [Suc 0..<Suc n]"
    using job_trace_processed [of a j0 cs] assms(3) by (simp add: mid_def n_def)
  have midf: "\<forall>x \<in> set mid. j_status x = Running \<and> j_total x = n"
    using job_trace_frame [of _ a j0 cs] assms(2,4) by (simp add: mid_def n_def)
  have butp: "map processed (butlast mid) = [Suc 0..<n]"
    using midp by (simp add: map_butlast)
  have butf: "\<forall>x \<in> set (butlast mid). j_status x = Running \<and> j_total x = n \<and> processed x < n"
  proof
    fix x assume x: "x \<in> set (butlast mid)"
    then have "x \<in> set mid" by (rule in_set_butlastD)
    moreover have "processed x \<in> set (map processed (butlast mid))" using x by simp
    ultimately show "j_status x = Running \<and> j_total x = n \<and> processed x < n"
      using midf unfolding butp by auto
  qed
  have lastf: "j_status (last mid) = Running \<and> j_total (last mid) = n \<and>
               processed (last mid) = n"
  proof -
    have "last mid \<in> set mid" using ne by simp
    moreover have "processed (last mid) = last (map processed mid)"
      using ne by (simp add: last_map)
    ultimately show ?thesis using midf n0 unfolding midp by simp
  qed
  define fin where "fin = finish (last mid) None"
  have finf: "processed fin = n \<and> j_total fin = n \<and> j_status fin = Completed"
    using finish_fields [of "last mid" None] lastf by (simp add: fin_def)
  have js: "js = j0 # butlast mid @ [fin]" by (simp add: js_def mid_def fin_def)
  have "map processed js = 0 # [Suc 0..<n] @ [n]"
    by (simp add: js assms(3) butp finf)
  moreover have "sorted (0 # [Suc 0..<n] @ [n])" by (auto simp: sorted_append)
  ultimately show "sorted (map processed js)" by simp
  show "\<forall>j \<in> set js. j_total j = length cs \<and> processed j \<le> j_total j \<and>
           (processed j = j_total j \<longleftrightarrow> j_status j = Completed \<or> j_status j = Failed)"
    using butf finf assms(2,3,4) n0 by (auto simp: js n_def)
  show "j_status (last js) = Completed" using finf by (simp add: js)
qed

text \<open>The states of a job on which a job-level fault strikes after \<open>k\<close> items.\<close>

lemma faulted_run:
  fixes a :: "string \<Rightarrow> string + string" and reason :: string
  assumes "j_status j0 = Running" and "processed j0 = 0" and "j_total j0 = length cs"
    and "k < length cs"
  defines "js \<equiv> j0 # job_trace a j0 (take k cs) @
             [finish (mark_not_processed (last (j0 # job_trace a j0 (take k cs))) (drop k cs))
                (Some reason)]"
  shows "sorted (map processed js)"
    and "\<forall>j \<in> set js. j_total j = length cs \<and> processed j \<le> j_total j \<and>
           (processed j = j_total j \<longleftrightarrow> j_status j = Completed \<or> j_status j = Failed)"
    and "j_status (last js) = Failed"
proof -
  define mid where "mid = job_trace a j0 (take k cs)"
  define n where "n = length cs"
  have k: "k < n" and lk: "length (take k cs) = k" using assms(4) by (simp_all add: n_def)
  have "map processed mid =
        [processed j0 + 1..<processed j0 + 1 + length (take k cs)]"
    unfolding mid_def by (rule job_trace_processed)
  then have midp: "map processed mid = [Suc 0..<Suc k]"
    unfolding lk assms(2) by simp
  have midf: "\<forall>x \<in> set mid. j_status x = Running \<and> j_total x = n \<and> processed x \<le> k"
  proof
    fix x assume x: "x \<in> set mid"
    then have "processed x \<in> set (map processed mid)" by simp
    then have "processed x \<le> k" unfolding midp by auto
    with x show "j_status x = Running \<and> j_total x = n \<and> processed x \<le> k"
      using job_trace_frame [of x a j0 "take k cs"] assms(1,3) by (simp add: mid_def n_def)
  qed
  define jk where "jk = last (j0 # mid)"
  have jkf: "j_status jk = Running \<and> j_total jk = n \<and> processed jk = k"
    using job_trace_last [of j0 a "take k cs"] assms(1,2,3) lk
    by (simp add: jk_def mid_def n_def)
  define marked where "marked = mark_not_processed jk (drop k cs)"
  have mf: "j_status marked = Running \<and> j_total marked = n \<and> processed marked = n"
    using mark_not_processed_fields [of jk "drop k cs"] jkf k
    by (simp add: marked_def n_def)
  define fin where "fin = finish marked (Some reason)"
  have finf: "processed fin = n \<and> j_total fin = n \<and> j_status fin = Failed"
    using finish_fields [of marked "Some reason"] mf by (simp add: fin_def)
  have js: "js = j0 # mid @ [fin]"
    by (simp add: js_def mid_def fin_def marked_def jk_def)
  have "map processed js = 0 # [Suc 0..<Suc k] @ [n]"
    by (simp add: js assms(2) midp finf)
  moreover have "sorted (0 # [Suc 0..<Suc k] @ [n])" using k by (auto simp: sorted_append)
  ultimately show "sorted (map processed js)" by simp
  show "\<forall>j \<in> set js. j_total j = length cs \<and> processed j \<le> j_total j \<and>
           (processed j = j_total j \<longleftrightarrow> j_status j = Completed \<or> j_status j = Failed)"
    using midf finf assms(1,2,3) k by (auto simp: js n_def)
  show "j_status (last js) = Failed" using finf by (simp add: js)
qed

text \<open>
  Claim C4. A submission is rejected only when it has no items. Otherwise, over the
  states of the job a status poll can see, in order, whatever the schedule and whether or
  not a job-level fault strikes: \<open>completed_count + failed_count\<close> never decreases and
  never exceeds \<open>total\<close>, it equals \<open>total\<close> exactly in the states whose status is
  completed or failed, and the job ends in such a state.
\<close>

theorem processed_count_invariant:
  "case batch_states analyze items sched chart now job_fault of
     Inl f \<Rightarrow> f = InvalidInput \<and> items = []
   | Inr js \<Rightarrow>
       sorted (map processed js) \<and>
       (\<forall>j \<in> set js.
          j_total j = length items \<and> processed j \<le> j_total j \<and>
          (processed j = j_total j \<longleftrightarrow> j_status j = Completed \<or> j_status j = Failed)) \<and>
       (j_status (last js) = Completed \<or> j_status (last js) = Failed)"
proof (cases "items = []")
  case True
  then show ?thesis by (simp add: batch_states_def)
next
  case False
  define j0 where "j0 = new_job items chart now"
  define order where "order = finish_order sched items"
  have len: "length order = length items" by (simp add: order_def finish_order_length)
  have ne: "order \<noteq> []" using False len by auto
  have j0f: "j_status j0 = Running" "processed j0 = 0" "j_total j0 = length order"
    by (simp_all add: j0_def new_job_fields len)
  from striking_cases [of items job_fault] show ?thesis
  proof
    assume none: "striking items job_fault = None"
    have eq: "batch_states analyze items sched chart now job_fault =
        Inr (j0 # butlast (job_trace analyze j0 order) @
             [finish (last (job_trace analyze j0 order)) None])"
      using batch_states_completed [OF False none] by (simp add: j0_def order_def)
    note r = completed_run [OF ne j0f, of analyze, unfolded len]
    show ?thesis unfolding eq sum.case using r by blast
  next
    assume "\<exists>k reason. striking items job_fault = Some (k, reason) \<and> k < length items"
    then obtain k reason where some: "striking items job_fault = Some (k, reason)"
      and k: "k < length order" by (auto simp: len)
    have eq: "batch_states analyze items sched chart now job_fault =
        Inr (j0 # job_trace analyze j0 (take k order) @
             [finish (mark_not_processed (last (j0 # job_trace analyze j0 (take k order)))
                        (drop k order)) (Some reason)])"
      using batch_states_faulted [OF False some] by (simp add: j0_def order_def)
    note r = faulted_run [OF j0f k, of analyze reason, unfolded len]
    show ?thesis unfolding eq sum.case using r by blast
  qed
qed


lemma example_runs:
  "map (\<lambda>j. (j_status j, processed j, j_total j))
     (projr (batch_states one_bad two_codes [1] ''day'' 0 None)) =
     [(Running, 0, 2), (Running, 1, 2), (Completed, 2, 2)]"
  "map (\<lambda>j. (j_status j, processed j, j_total j))
     (projr (batch_states one_bad two_codes [1] ''day'' 0 (Some (1, ''storage unavailable'')))) =
     [(Running, 0, 2), (Running, 1, 2), (Failed, 2, 2)]"
  "\<not> isl (batch_states one_bad two_codes [1] ''day'' 0 None)"
  "\<not> isl (batch_states one_bad two_codes [1] ''day'' 0 (Some (1, ''storage unavailable'')))"
  by (simp_all add: batch_states_def finish_order_example striking_def two_codes_def
        one_bad_def new_job_def update_progress_def analyse_item_def finish_def
        set_status_def processed_def mark_not_processed_def Let_def)

theorem processed_count_invariant_witness:
  "(\<exists>js. batch_states one_bad two_codes [1] ''day'' 0 None = Inr js \<and>
         sorted (map processed js) \<and>
         (\<forall>j \<in> set js. processed j \<le> j_total j \<and>
            (processed j = j_total j \<longleftrightarrow> j_status j = Completed \<or> j_status j = Failed)) \<and>
         map (\<lambda>j. (j_status j, processed j, j_total j)) js =
           [(Running, 0, 2), (Running, 1, 2), (Completed, 2, 2)]) \<and>
   (\<exists>js. batch_states one_bad two_codes [1] ''day'' 0 (Some (1, ''storage unavailable'')) =
           Inr js \<and>
         sorted (map processed js) \<and>
         (\<forall>j \<in> set js. processed j \<le> j_total j \<and>
            (processed j = j_total j \<longleftrightarrow> j_status j = Completed \<or> j_status j = Failed)) \<and>
         map (\<lambda>j. (j_status j, processed j, j_total j)) js =
           [(Running, 0, 2), (Running, 1, 2), (Failed, 2, 2)])"
proof -
  obtain js1 where js1: "batch_states one_bad two_codes [1] ''day'' 0 None = Inr js1"
    using example_runs(3) by (cases "batch_states one_bad two_codes [1] ''day'' 0 None") auto
  obtain js2 where js2:
    "batch_states one_bad two_codes [1] ''day'' 0 (Some (1, ''storage unavailable'')) = Inr js2"
    using example_runs(4)
    by (cases "batch_states one_bad two_codes [1] ''day'' 0 (Some (1, ''storage unavailable''))")
       auto
  from processed_count_invariant
         [where analyze = one_bad and items = two_codes and sched = "[1]"
            and chart = "''day''" and now = 0 and job_fault = None]
  have a: "sorted (map processed js1) \<and>
         (\<forall>j \<in> set js1. processed j \<le> j_total j \<and>
            (processed j = j_total j \<longleftrightarrow> j_status j = Completed \<or> j_status j = Failed))"
    unfolding js1 sum.case by blast
  from processed_count_invariant
         [where analyze = one_bad and items = two_codes and sched = "[1]"
            and chart = "''day''" and now = 0
            and job_fault = "Some (1, ''storage unavailable'')"]
  have b: "sorted (map processed js2) \<and>
         (\<forall>j \<in> set js2. processed j \<le> j_total j \<and>
            (processed j = j_total j \<longleftrightarrow> j_status j = Completed \<or> j_status j = Failed))"
    unfolding js2 sum.case by blast
  from example_runs(1) js1
  have c: "map (\<lambda>j. (j_status j, processed j, j_total j)) js1 =
           [(Running, 0, 2), (Running, 1, 2), (Completed, 2, 2)]" by simp
  from example_runs(2) js2
  have d: "map (\<lambda>j. (j_status j, processed j, j_total j)) js2 =
           [(Running, 0, 2), (Running, 1, 2), (Failed, 2, 2)]" by simp
  have e1: "\<exists>js. batch_states one_bad two_codes [1] ''day'' 0 None = Inr js \<and>
         sorted (map processed js) \<and>
         (\<forall>j \<in> set js. processed j \<le> j_total j \<and>
            (processed j = j_total j \<longleftrightarrow> j_status j = Completed \<or> j_status j = Failed)) \<and>
         map (\<lambda>j. (j_status j, processed j, j_total j)) js =
           [(Running, 0, 2), (Running, 1, 2), (Completed, 2, 2)]"
    using js1 a c by (intro exI [where x = js1] conjI) simp_all
  have e2: "\<exists>js. batch_states one_bad two_codes [1] ''day'' 0
                 (Some (1, ''storage unavailable'')) = Inr js \<and>
         sorted (map processed js) \<and>
         (\<forall>j \<in> set js. processed j \<le> j_total j \<and>
            (processed j = j_total j \<longleftrightarrow> j_status j = Completed \<or> j_status j = Failed)) \<and>
         map (\<lambda>j. (j_status j, processed j, j_total j)) js =
           [(Running, 0, 2), (Running, 1, 2), (Failed, 2, 2)]"
    using js2 b d by (intro exI [where x = js2] conjI) simp_all
  from e1 e2 show ?thesis by (rule conjI)
qed

end
